theory Spec2Isabelle
  imports Complex_Main "HOL-Library.Multiset"
begin

section \<open>TRAJEP: a LAMMPS trajectory parser\<close>

text \<open>
  A shallow embedding of \<^verbatim>\<open>TRAJEP.py\<close>. The script reads every dump file of a batch
  into a dense [atom][timestep] array of x coordinates (source lines 71-117), then, per
  array, finds the first monomer reaching the wall at \<open>x1\<close>, normalises the array in place
  and fills the series handed to the plotter (lines 120-157).

  Conventions of the model.
  \<^item> Python exceptions are values of \<open>py_error\<close>; a computation that may raise has type
    \<open>py_error + 'a\<close>.
  \<^item> Python floats are modelled by \<open>real\<close>: rounding, infinities and NaN are not
    represented. The conversion of an integer to a float is modelled with its
    OverflowError.
  \<^item> The builtins \<^verbatim>\<open>int(str)\<close> and \<^verbatim>\<open>float(str)\<close> and the contents of the
    uninitialised memory returned by \<^verbatim>\<open>np.empty\<close> are parameters of the model (record
    \<open>pyenv\<close>); every general theorem holds for all of them.
  \<^item> A line of a file is a \<open>string\<close>; a file is the list of its lines as
    \<^verbatim>\<open>readlines()\<close> returns them.
\<close>

subsection \<open>Python builtins\<close>

datatype py_error = ValueError | IndexError | KeyError | ZeroDivisionError | OverflowError

definition bindE :: "py_error + 'a \<Rightarrow> ('a \<Rightarrow> py_error + 'b) \<Rightarrow> py_error + 'b" where
  "bindE m f = (case m of Inl e \<Rightarrow> Inl e | Inr x \<Rightarrow> f x)"

record pyenv =
  py_int :: "string \<Rightarrow> int option"
  py_float :: "string \<Rightarrow> real option"
  np_garbage :: "nat \<Rightarrow> nat \<Rightarrow> real"

text \<open>\<^verbatim>\<open>int(s)\<close> and \<^verbatim>\<open>float(s)\<close>: a string that does not parse raises ValueError.\<close>

definition parse_int :: "pyenv \<Rightarrow> string \<Rightarrow> py_error + int" where
  "parse_int env s = (case py_int env s of None \<Rightarrow> Inl ValueError | Some v \<Rightarrow> Inr v)"

definition parse_float :: "pyenv \<Rightarrow> string \<Rightarrow> py_error + real" where
  "parse_float env s = (case py_float env s of None \<Rightarrow> Inl ValueError | Some v \<Rightarrow> Inr v)"

text \<open>\<^verbatim>\<open>xs[k]\<close> for a non-negative index \<open>k\<close>.\<close>

definition py_nth :: "'a list \<Rightarrow> nat \<Rightarrow> py_error + 'a" where
  "py_nth xs k = (if k < length xs then Inr (xs ! k) else Inl IndexError)"

text \<open>\<^verbatim>\<open>xs[i]\<close> for any integer \<open>i\<close>: a negative index counts from the end.\<close>

definition py_index :: "'a list \<Rightarrow> int \<Rightarrow> py_error + 'a" where
  "py_index xs i =
     (if 0 \<le> i \<and> i < int (length xs) then Inr (xs ! nat i)
      else if i < 0 \<and> - int (length xs) \<le> i then Inr (xs ! nat (int (length xs) + i))
      else Inl IndexError)"

text \<open>
  \<^verbatim>\<open>s.split()\<close>: the maximal runs of non-whitespace characters. The whitespace
  characters are those of Python's \<^verbatim>\<open>str.isspace\<close> below code point 256.
\<close>

definition is_space :: "char \<Rightarrow> bool" where
  "is_space c = (c \<in> set [CHR 0x09, CHR 0x0A, CHR 0x0B, CHR 0x0C, CHR 0x0D,
                          CHR 0x1C, CHR 0x1D, CHR 0x1E, CHR 0x1F, CHR 0x20,
                          CHR 0x85, CHR 0xA0])"

fun py_split_aux :: "string \<Rightarrow> string \<Rightarrow> string list" where
  "py_split_aux cur [] = (if cur = [] then [] else [cur])"
| "py_split_aux cur (c # cs) =
     (if is_space c
      then (if cur = [] then py_split_aux [] cs else cur # py_split_aux [] cs)
      else py_split_aux (cur @ [c]) cs)"

definition py_split :: "string \<Rightarrow> string list" where
  "py_split s = py_split_aux [] s"

text \<open>\<^verbatim>\<open>a / b\<close> on integers (true division) and \<^verbatim>\<open>int(x)\<close> on a float (truncation).\<close>

definition py_truediv :: "int \<Rightarrow> int \<Rightarrow> py_error + real" where
  "py_truediv a b = (if b = 0 then Inl ZeroDivisionError else Inr (real_of_int a / real_of_int b))"

definition py_trunc :: "real \<Rightarrow> int" where
  "py_trunc x = (if 0 \<le> x then \<lfloor>x\<rfloor> else \<lceil>x\<rceil>)"

text \<open>
  The conversion of an integer to a float, which a product of a float and an integer
  performs on the integer: an integer that rounds (to nearest, ties to even) beyond the
  largest finite double raises OverflowError. The doubles are those of IEEE 754 binary64,
  so the first such integer is \<open>2 ^ 1024 - 2 ^ 970\<close>.
\<close>

definition float_limit :: int where
  "float_limit = 2 ^ 1024 - 2 ^ 970"

definition py_float_of_int :: "int \<Rightarrow> py_error + real" where
  "py_float_of_int k = (if \<bar>k\<bar> < float_limit then Inr (real_of_int k) else Inl OverflowError)"

text \<open>\<^verbatim>\<open>d[k]\<close> on a dictionary.\<close>

definition dict_get :: "('k \<rightharpoonup> 'v) \<Rightarrow> 'k \<Rightarrow> py_error + 'v" where
  "dict_get d k = (case d k of None \<Rightarrow> Inl KeyError | Some v \<Rightarrow> Inr v)"

subsection \<open>Arrays\<close>

type_synonym matrix = "real list list"

text \<open>
  \<^verbatim>\<open>np.empty((rows, cols), dtype=float)\<close>: a negative dimension raises ValueError;
  the contents are whatever the memory held.
\<close>

definition garbage_matrix :: "pyenv \<Rightarrow> nat \<Rightarrow> nat \<Rightarrow> matrix" where
  "garbage_matrix env n T = map (\<lambda>j. map (\<lambda>t. np_garbage env j t) [0..<T]) [0..<n]"

definition np_empty :: "pyenv \<Rightarrow> int \<Rightarrow> int \<Rightarrow> py_error + matrix" where
  "np_empty env rows cols =
     (if rows < 0 \<or> cols < 0 then Inl ValueError
      else Inr (garbage_matrix env (nat rows) (nat cols)))"

text \<open>\<^verbatim>\<open>np.empty((cols, ), dtype=float)\<close>, the \<open>k\<close>-th one-dimensional array of a group.\<close>

definition np_empty1 :: "pyenv \<Rightarrow> nat \<Rightarrow> int \<Rightarrow> py_error + real list" where
  "np_empty1 env k cols =
     (if cols < 0 then Inl ValueError else Inr (map (\<lambda>t. np_garbage env k t) [0..<nat cols]))"

text \<open>\<^verbatim>\<open>M[j][t] = v\<close>, for indices within the shape of \<open>M\<close>.\<close>

definition set_cell :: "matrix \<Rightarrow> nat \<Rightarrow> nat \<Rightarrow> real \<Rightarrow> matrix" where
  "set_cell M j t v = M[j := (M ! j)[t := v]]"

definition shape :: "matrix \<Rightarrow> nat \<Rightarrow> nat \<Rightarrow> bool" where
  "shape M n T = (length M = n \<and> (\<forall>r \<in> set M. length r = T))"

subsection \<open>Reading one dump file (lines 77-116)\<close>

record meta =
  numAtoms :: int
  numDumps :: real
  dumpStep :: int

text \<open>\<^verbatim>\<open>atomId = int(currentLine.split()[0])\<close>\<close>

definition atom_id :: "pyenv \<Rightarrow> string \<Rightarrow> py_error + int" where
  "atom_id env currentLine = bindE (py_nth (py_split currentLine) 0) (parse_int env)"

text \<open>Lines 105-107: the identifier, then the x coordinate, of one atom line.\<close>

definition parse_atom_line :: "pyenv \<Rightarrow> string \<Rightarrow> py_error + (int \<times> real)" where
  "parse_atom_line env currentLine =
     bindE (atom_id env currentLine) (\<lambda>atomId.
     bindE (py_nth (py_split currentLine) 1) (\<lambda>e.
     bindE (parse_float env e) (\<lambda>xPos. Inr (atomId, xPos))))"

text \<open>Lines 88-94: the identifiers of the first chunk, in file order.\<close>

fun read_atomList :: "pyenv \<Rightarrow> string list \<Rightarrow> nat list \<Rightarrow> int list \<Rightarrow> py_error + int list" where
  "read_atomList env lines [] atomList = Inr atomList"
| "read_atomList env lines (i # is) atomList =
     bindE (py_nth lines (i + 9)) (\<lambda>currentLine.
     bindE (atom_id env currentLine) (\<lambda>atomId.
     read_atomList env lines is (atomList @ [atomId])))"

text \<open>Lines 96-98: \<^verbatim>\<open>idToIndex[atomList[i]] = i\<close> for \<open>i\<close> in \<open>range(0, numAtoms)\<close>.\<close>

definition build_idToIndex :: "int list \<Rightarrow> nat \<Rightarrow> (int \<rightharpoonup> nat)" where
  "build_idToIndex atomList n = fold (\<lambda>i d. d(atomList ! i \<mapsto> i)) [0..<n] Map.empty"

text \<open>
  Lines 103-109: the atom lines \<open>js\<close> of chunk \<open>i\<close>. The index that the dictionary
  returns is below \<open>numAtoms\<close> and \<open>i\<close> is below \<open>int(numDumps)\<close>, so the assignment is
  within the shape of the array.
\<close>

fun record_lines ::
  "pyenv \<Rightarrow> string list \<Rightarrow> (int \<rightharpoonup> nat) \<Rightarrow> nat \<Rightarrow> nat list \<Rightarrow> matrix \<Rightarrow> py_error + matrix" where
  "record_lines env lines idToIndex i [] M = Inr M"
| "record_lines env lines idToIndex i (j # js) M =
     bindE (py_nth lines j) (\<lambda>currentLine.
     bindE (parse_atom_line env currentLine) (\<lambda>(atomId, xPos).
     bindE (dict_get idToIndex atomId) (\<lambda>atomIndex.
     record_lines env lines idToIndex i js (set_cell M atomIndex i xPos))))"

text \<open>Lines 101-109: the chunks \<open>is\<close>, with \<open>n\<close> atoms each.\<close>

fun record_dumps ::
  "pyenv \<Rightarrow> string list \<Rightarrow> (int \<rightharpoonup> nat) \<Rightarrow> nat \<Rightarrow> nat list \<Rightarrow> matrix \<Rightarrow> py_error + matrix" where
  "record_dumps env lines idToIndex n [] M = Inr M"
| "record_dumps env lines idToIndex n (i # is) M =
     (let dumpIndex = i * (n + 9) + 9 in
      bindE (record_lines env lines idToIndex i [dumpIndex..<dumpIndex + n] M)
        (record_dumps env lines idToIndex n is))"

text \<open>Lines 88-109 for a file of \<open>n\<close> atoms of which \<open>T\<close> chunks are recorded into \<open>M0\<close>.\<close>

definition assemble :: "pyenv \<Rightarrow> string list \<Rightarrow> nat \<Rightarrow> nat \<Rightarrow> matrix \<Rightarrow> py_error + matrix" where
  "assemble env lines n T M0 =
     bindE (read_atomList env lines [0..<n] []) (\<lambda>atomList.
     let atomList = sort atomList;
         idToIndex = build_idToIndex atomList n in
     record_dumps env lines idToIndex n [0..<T] M0)"

text \<open>
  The body of the loop over the files, after \<^verbatim>\<open>readlines()\<close>. The result
  \<open>Inr None\<close> is a \<^verbatim>\<open>continue\<close>; \<open>Inr (Some (newPolymerData, m))\<close> are the array and the
  dictionary appended to \<open>polymerList\<close> and \<open>polymerMeta\<close>. Once \<^verbatim>\<open>np.empty\<close> has
  returned, \<open>numAtoms\<close> and \<open>int(numDumps)\<close> are not negative, and the ranges of the loops
  of lines 88-109 are written over \<open>nat\<close>.
\<close>

definition process_file :: "pyenv \<Rightarrow> string list \<Rightarrow> py_error + (matrix \<times> meta) option" where
  "process_file env lines =
     (if length lines < 4 then Inr None
      else
        bindE (parse_int env (butlast (lines ! 3))) (\<lambda>numAtoms.
        let dumpLength = numAtoms + 9 in
        bindE (py_truediv (int (length lines)) dumpLength) (\<lambda>numDumps.
        if int (length lines) < dumpLength + 2 then Inr None
        else
          bindE (py_index lines (dumpLength + 1)) (\<lambda>stepLine.
          bindE (parse_int env (butlast stepLine)) (\<lambda>dumpStep.
          bindE (np_empty env numAtoms (py_trunc numDumps)) (\<lambda>newPolymerData.
          bindE (assemble env lines (nat numAtoms) (nat (py_trunc numDumps)) newPolymerData)
            (\<lambda>newPolymerData.
          Inr (Some (newPolymerData,
                 \<lparr>numAtoms = numAtoms, numDumps = numDumps, dumpStep = dumpStep\<rparr>)))))))))"

subsection \<open>The loop over the files (lines 71-117)\<close>

text \<open>
  A file of the batch is its path and its lines; the paths of \<open>fileList\<close> are pairwise
  different, as they come from one directory listing. \<open>openFiles\<close> holds the paths of the
  file objects that are open, and \<open>fileVar\<close> the path of the file object bound to the
  variable \<^verbatim>\<open>file\<close>. An exception ends the script.

  Line 75, \<^verbatim>\<open>file = open(dumpFile, 'r')\<close>, is two steps. \<open>py_open\<close> is the call: it
  returns a new open file object while the object of the previous iteration is still
  bound to \<^verbatim>\<open>file\<close>. \<open>assign_file\<close> is the assignment: the previous object loses its
  last reference, and the interpreter (CPython, by reference counting) closes a file
  object when that happens. \<open>py_close\<close> is \<^verbatim>\<open>file.close()\<close> of line 117.
\<close>

record batch_state =
  polymerList :: "matrix list"
  polymerMeta :: "meta list"
  openFiles :: "string list"
  fileVar :: "string option"

definition py_open :: "string \<Rightarrow> batch_state \<Rightarrow> batch_state" where
  "py_open dumpFile st = st\<lparr>openFiles := dumpFile # openFiles st\<rparr>"

definition assign_file :: "string \<Rightarrow> batch_state \<Rightarrow> batch_state" where
  "assign_file dumpFile st =
     st\<lparr>openFiles := (case fileVar st of None \<Rightarrow> openFiles st
                        | Some old \<Rightarrow> remove1 old (openFiles st)),
        fileVar := Some dumpFile\<rparr>"

definition py_close :: "batch_state \<Rightarrow> batch_state" where
  "py_close st =
     (case fileVar st of None \<Rightarrow> st
      | Some f \<Rightarrow> st\<lparr>openFiles := remove1 f (openFiles st)\<rparr>)"

fun process_batch ::
  "pyenv \<Rightarrow> (string \<times> string list) list \<Rightarrow> batch_state \<Rightarrow> py_error + batch_state" where
  "process_batch env [] st = Inr st"
| "process_batch env ((dumpFile, lines) # fileList) st =
     (let st = assign_file dumpFile (py_open dumpFile st) in
      case process_file env lines of
        Inl e \<Rightarrow> Inl e
      | Inr None \<Rightarrow> process_batch env fileList st
      | Inr (Some (newPolymerData, m)) \<Rightarrow>
          process_batch env fileList
            (py_close (st\<lparr>polymerList := polymerList st @ [newPolymerData],
                          polymerMeta := polymerMeta st @ [m]\<rparr>)))"

definition init_state :: batch_state where
  "init_state = \<lparr>polymerList = [], polymerMeta = [], openFiles = [], fileVar = None\<rparr>"

subsection \<open>Pre-processing before graphing (lines 124-157)\<close>

definition TIMESTEP :: real where
  "TIMESTEP = 0.00005"

definition RF :: real where
  "RF = 8.6"

record scan_state =
  polymerData :: matrix
  firstMonomerFound :: bool
  firstMonomerCoords :: "nat list"

text \<open>
  Lines 140-144: the body of the inner loop, at timestep \<open>t\<close> and atom \<open>j\<close>. The array
  was created at line 85 with \<open>numAtoms\<close> rows and \<open>int(numDumps)\<close> columns, the bounds of
  the two loops, so both indices are within its shape.
\<close>

definition scan_cell :: "real \<Rightarrow> nat \<Rightarrow> nat \<Rightarrow> scan_state \<Rightarrow> scan_state" where
  "scan_cell x1 t j s =
     (let xPos = polymerData s ! j ! t;
          s = (if xPos \<ge> x1 \<and> \<not> firstMonomerFound s
               then s\<lparr>firstMonomerFound := True, firstMonomerCoords := [j, t]\<rparr>
               else s)
      in s\<lparr>polymerData := set_cell (polymerData s) j t (polymerData s ! j ! t / RF)\<rparr>)"

text \<open>Lines 136-144: the loop in time first, then over the monomers.\<close>

definition scan :: "real \<Rightarrow> nat \<Rightarrow> nat \<Rightarrow> matrix \<Rightarrow> scan_state" where
  "scan x1 n T M =
     fold (\<lambda>t. fold (\<lambda>j. scan_cell x1 t j) [0..<n]) [0..<T]
       \<lparr>polymerData = M, firstMonomerFound = False, firstMonomerCoords = []\<rparr>"

record series =
  normData :: matrix
  firstMonomerIndex :: nat
  firstMonomerTime :: nat
  distArray :: matrix
  timeArray :: matrix

text \<open>
  Lines 151-154: the body of the loop that fills the arrays for graphing. In line 154 the
  integer \<open>t - firstMonomerTime[i]\<close> is converted to a float for the product with
  \<open>TIMESTEP\<close>, and then the integer \<open>dumpStep\<close> for the product with the result.
\<close>

definition fill_step ::
  "matrix \<Rightarrow> meta \<Rightarrow> nat \<Rightarrow> nat \<Rightarrow> nat \<Rightarrow> matrix \<times> matrix \<Rightarrow> py_error + matrix \<times> matrix" where
  "fill_step pd m fmIndex fmTime t da =
     (let (dArr, tArr) = da;
          dArr = set_cell dArr 0 t (pd ! 0 ! t);
          dArr = set_cell dArr 1 t (pd ! nat (numAtoms m - 1) ! t);
          dArr = set_cell dArr 2 t (pd ! fmIndex ! t)
      in bindE (py_float_of_int (int t - int fmTime)) (\<lambda>dt.
         bindE (py_float_of_int (dumpStep m)) (\<lambda>step.
         Inr (dArr, set_cell tArr 0 t (dt * TIMESTEP * step)))))"

text \<open>Lines 150-154: the loop over the timesteps \<open>ts\<close>.\<close>

fun fill_arrays ::
  "matrix \<Rightarrow> meta \<Rightarrow> nat \<Rightarrow> nat \<Rightarrow> nat list \<Rightarrow> matrix \<times> matrix \<Rightarrow> py_error + matrix \<times> matrix" where
  "fill_arrays pd m fmIndex fmTime [] da = Inr da"
| "fill_arrays pd m fmIndex fmTime (t # ts) da =
     bindE (fill_step pd m fmIndex fmTime t da) (fill_arrays pd m fmIndex fmTime ts)"

text \<open>
  The body of the loop over \<open>polymerList\<close>, for the array \<open>pd\<close> and its dictionary \<open>m\<close>.
  \<open>firstMonomerIndex[i]\<close> and \<open>firstMonomerTime[i]\<close> are the two values appended in the
  same iteration.
\<close>

definition preprocess :: "pyenv \<Rightarrow> real \<Rightarrow> matrix \<Rightarrow> meta \<Rightarrow> py_error + series" where
  "preprocess env x1 pd m =
     bindE (np_empty1 env 0 (py_trunc (numDumps m))) (\<lambda>d0.
     bindE (np_empty1 env 1 (py_trunc (numDumps m))) (\<lambda>d1.
     bindE (np_empty1 env 2 (py_trunc (numDumps m))) (\<lambda>d2.
     bindE (np_empty1 env 3 (py_trunc (numDumps m))) (\<lambda>t0.
     let s = scan x1 (nat (numAtoms m)) (nat (py_trunc (numDumps m))) pd in
     bindE (py_nth (firstMonomerCoords s) 0) (\<lambda>fmIndex.
     bindE (py_nth (firstMonomerCoords s) 1) (\<lambda>fmTime.
     bindE (fill_arrays (polymerData s) m fmIndex fmTime
              [0..<nat (py_trunc (numDumps m))] ([d0, d1, d2], [t0])) (\<lambda>(dArr, tArr).
     Inr \<lparr>normData = polymerData s, firstMonomerIndex = fmIndex,
          firstMonomerTime = fmTime, distArray = dArr, timeArray = tArr\<rparr>)))))))"

subsection \<open>Derived notions used by the statements\<close>

text \<open>The cells in the order the scan visits them: time first, then the monomers.\<close>

definition scan_order :: "nat \<Rightarrow> nat \<Rightarrow> (nat \<times> nat) list" where
  "scan_order n T = concat (map (\<lambda>t. map (\<lambda>j. (j, t)) [0..<n]) [0..<T])"

definition crossing :: "real \<Rightarrow> matrix \<Rightarrow> nat \<times> nat \<Rightarrow> bool" where
  "crossing x1 M c = (M ! fst c ! snd c \<ge> x1)"

definition scan_init :: "matrix \<Rightarrow> scan_state" where
  "scan_init M = \<lparr>polymerData = M, firstMonomerFound = False, firstMonomerCoords = []\<rparr>"

text \<open>The state of the scan when it has visited the cells \<open>cs\<close>.\<close>

definition scan_cells :: "real \<Rightarrow> (nat \<times> nat) list \<Rightarrow> scan_state \<Rightarrow> scan_state" where
  "scan_cells x1 cs s = fold (\<lambda>(j, t). scan_cell x1 t j) cs s"

text \<open>
  The assignments \<^verbatim>\<open>newPolymerData[atomIndex][i] = xPos\<close> that lines 103-109 perform,
  in order: the same traversal as \<open>record_lines\<close> and \<open>record_dumps\<close>, collecting the
  target cell and the value instead of storing it.
\<close>

fun line_writes ::
  "pyenv \<Rightarrow> string list \<Rightarrow> (int \<rightharpoonup> nat) \<Rightarrow> nat \<Rightarrow> nat list \<Rightarrow> py_error + ((nat \<times> nat) \<times> real) list" where
  "line_writes env lines idToIndex i [] = Inr []"
| "line_writes env lines idToIndex i (j # js) =
     bindE (py_nth lines j) (\<lambda>currentLine.
     bindE (parse_atom_line env currentLine) (\<lambda>(atomId, xPos).
     bindE (dict_get idToIndex atomId) (\<lambda>atomIndex.
     bindE (line_writes env lines idToIndex i js) (\<lambda>ws.
     Inr (((atomIndex, i), xPos) # ws)))))"

fun dump_writes ::
  "pyenv \<Rightarrow> string list \<Rightarrow> (int \<rightharpoonup> nat) \<Rightarrow> nat \<Rightarrow> nat list \<Rightarrow> py_error + ((nat \<times> nat) \<times> real) list" where
  "dump_writes env lines idToIndex n [] = Inr []"
| "dump_writes env lines idToIndex n (i # is) =
     (let dumpIndex = i * (n + 9) + 9 in
      bindE (line_writes env lines idToIndex i [dumpIndex..<dumpIndex + n]) (\<lambda>ws.
      bindE (dump_writes env lines idToIndex n is) (\<lambda>ws'. Inr (ws @ ws'))))"

definition apply_writes :: "((nat \<times> nat) \<times> real) list \<Rightarrow> matrix \<Rightarrow> matrix" where
  "apply_writes ws M = fold (\<lambda>((a, i), x) M. set_cell M a i x) ws M"

text \<open>Line \<open>j\<close> of the file read as an atom line: both fields, or the identifier alone.\<close>

definition line_atom :: "pyenv \<Rightarrow> string list \<Rightarrow> nat \<Rightarrow> py_error + int \<times> real" where
  "line_atom env lines j = bindE (py_nth lines j) (parse_atom_line env)"

definition line_id :: "pyenv \<Rightarrow> string list \<Rightarrow> nat \<Rightarrow> py_error + int" where
  "line_id env lines j = bindE (py_nth lines j) (atom_id env)"

text \<open>The atom lines of chunk \<open>i\<close>, parsed: identifier and coordinate, in file order.\<close>

definition chunk_atoms :: "pyenv \<Rightarrow> string list \<Rightarrow> nat \<Rightarrow> nat \<Rightarrow> (py_error + int \<times> real) list" where
  "chunk_atoms env lines n i =
     map (line_atom env lines) [i * (n + 9) + 9..<i * (n + 9) + 9 + n]"

text \<open>
  The assignments that chunk \<open>i\<close> performs when its atom lines parse to \<open>ps\<close> and their
  identifiers are keys of \<open>idToIndex\<close>.
\<close>

definition chunk_writes ::
  "(int \<rightharpoonup> nat) \<Rightarrow> nat \<Rightarrow> (int \<times> real) list \<Rightarrow> ((nat \<times> nat) \<times> real) list" where
  "chunk_writes idToIndex i ps = map (\<lambda>(a, x). ((the (idToIndex a), i), x)) ps"

text \<open>
  The assignments of a whole file of \<open>n\<close> atoms and \<open>T\<close> chunks whose chunk \<open>i\<close> parses to
  \<open>ps i\<close>: the dictionary is built from the identifiers of chunk 0.
\<close>

definition file_writes ::
  "nat \<Rightarrow> nat \<Rightarrow> (nat \<Rightarrow> (int \<times> real) list) \<Rightarrow> ((nat \<times> nat) \<times> real) list" where
  "file_writes n T ps =
     concat (map (\<lambda>i. chunk_writes (build_idToIndex (sort (map fst (ps 0))) n) i (ps i)) [0..<T])"

text \<open>The assignments of lines 88-109, for a file of \<open>n\<close> atoms and \<open>T\<close> chunks.\<close>

definition assemble_writes ::
  "pyenv \<Rightarrow> string list \<Rightarrow> nat \<Rightarrow> nat \<Rightarrow> py_error + ((nat \<times> nat) \<times> real) list" where
  "assemble_writes env lines n T =
     bindE (read_atomList env lines [0..<n] []) (\<lambda>atomList.
     let atomList = sort atomList;
         idToIndex = build_idToIndex atomList n in
     dump_writes env lines idToIndex n [0..<T])"

subsection \<open>A concrete environment and sample files\<close>

text \<open>
  Decimal parsers for the sample files: an optional minus sign and decimal digits, on
  which they agree with \<^verbatim>\<open>int\<close> and \<^verbatim>\<open>float\<close>. Uninitialised memory reads 0.
\<close>

definition digit_val :: "char \<Rightarrow> nat option" where
  "digit_val c = map_of [(CHR ''0'', 0), (CHR ''1'', 1), (CHR ''2'', 2), (CHR ''3'', 3),
     (CHR ''4'', 4), (CHR ''5'', 5), (CHR ''6'', 6), (CHR ''7'', 7), (CHR ''8'', 8),
     (CHR ''9'', 9)] c"

fun dec_nat :: "nat \<Rightarrow> string \<Rightarrow> nat option" where
  "dec_nat acc [] = Some acc"
| "dec_nat acc (c # cs) =
     (case digit_val c of None \<Rightarrow> None | Some d \<Rightarrow> dec_nat (10 * acc + d) cs)"

definition dec_int :: "string \<Rightarrow> int option" where
  "dec_int s =
     (if s = [] \<or> s = ''-'' then None
      else if hd s = CHR ''-'' then map_option (\<lambda>k. - int k) (dec_nat 0 (tl s))
      else map_option int (dec_nat 0 s))"

definition env0 :: pyenv where
  "env0 = \<lparr>py_int = dec_int, py_float = (\<lambda>s. map_option real_of_int (dec_int s)),
           np_garbage = (\<lambda>j t. 0)\<rparr>"

text \<open>The nine header lines of a chunk of \<open>k\<close> atoms at timestep \<open>ts\<close>.\<close>

definition header :: "string \<Rightarrow> string \<Rightarrow> string list" where
  "header ts k =
     [''ITEM: TIMESTEP'' @ [CHR 0x0A], ts @ [CHR 0x0A],
      ''ITEM: NUMBER OF ATOMS'' @ [CHR 0x0A], k @ [CHR 0x0A],
      ''ITEM: BOX BOUNDS'' @ [CHR 0x0A], ''0 9'' @ [CHR 0x0A], ''0 9'' @ [CHR 0x0A],
      ''0 9'' @ [CHR 0x0A], ''ITEM: ATOMS'' @ [CHR 0x0A]]"

text \<open>A 2 by 2 array and its dictionary: atom 1 is at the wall \<open>x1 = 5\<close> from timestep 0 on.\<close>

definition sample_matrix :: matrix where
  "sample_matrix = [[1, 5], [6, 7]]"

definition sample_meta :: meta where
  "sample_meta = \<lparr>numAtoms = 2, numDumps = 5 / 2, dumpStep = 100\<rparr>"


text \<open>
  A file of two atoms and two chunks: the identifiers are 30, 10 in the first chunk and
  10, 30 in the second. \<open>sample_truncated\<close> adds three lines of a third chunk.
\<close>

definition atom_line :: "string \<Rightarrow> string \<Rightarrow> string" where
  "atom_line a x = a @ '' '' @ x @ '' 0 0'' @ [CHR 0x0A]"

definition sample_file :: "string list" where
  "sample_file =
     header ''0'' ''2'' @ [atom_line ''30'' ''1'', atom_line ''10'' ''2''] @
     header ''100'' ''2'' @ [atom_line ''10'' ''6'', atom_line ''30'' ''3'']"

definition sample_truncated :: "string list" where
  "sample_truncated = sample_file @ take 3 (header ''200'' ''2'')"

text \<open>The same file with the atom lines of each chunk in the other order.\<close>

definition sample_permuted :: "string list" where
  "sample_permuted =
     header ''0'' ''2'' @ [atom_line ''10'' ''2'', atom_line ''30'' ''1''] @
     header ''100'' ''2'' @ [atom_line ''30'' ''3'', atom_line ''10'' ''6'']"

text \<open>A file whose first chunk names atom 1 twice, and one whose second chunk names an
  atom, 99, that the first chunk does not have.\<close>

definition sample_duplicate :: "string list" where
  "sample_duplicate =
     header ''0'' ''2'' @ [atom_line ''1'' ''5'', atom_line ''1'' ''6''] @
     header ''100'' ''2'' @ [atom_line ''1'' ''7'', atom_line ''1'' ''8'']"

definition sample_unknown :: "string list" where
  "sample_unknown =
     header ''0'' ''2'' @ [atom_line ''30'' ''1'', atom_line ''10'' ''2''] @
     header ''100'' ''2'' @ [atom_line ''10'' ''6'', atom_line ''99'' ''3'']"

text \<open>
  A file of two atoms and two chunks whose second chunk is at timestep \<open>10 ^ 400\<close>, written
  as the digit 1 followed by 400 zeros. Its array is \<open>sample_matrix\<close>.
\<close>

definition huge_step :: string where
  "huge_step = CHR ''1'' # replicate 400 CHR ''0''"

definition huge_file :: "string list" where
  "huge_file =
     header ''0'' ''2'' @ [atom_line ''30'' ''6'', atom_line ''10'' ''1''] @
     header huge_step ''2'' @ [atom_line ''10'' ''5'', atom_line ''30'' ''7'']"

definition huge_atoms :: "nat \<Rightarrow> (int \<times> real) list" where
  "huge_atoms i = (if i = 0 then [(30, 6), (10, 1)] else [(10, 5), (30, 7)])"

definition huge_meta :: meta where
  "huge_meta = \<lparr>numAtoms = 2, numDumps = 2, dumpStep = 10 ^ 400\<rparr>"

text \<open>A file of four lines that announces one atom.\<close>

definition sample_short :: "string list" where
  "sample_short = take 4 (header ''0'' ''1'')"

text \<open>What the atom lines of the chunks of the sample files parse to.\<close>

definition sample_atoms :: "nat \<Rightarrow> (int \<times> real) list" where
  "sample_atoms i = (if i = 0 then [(30, 1), (10, 2)] else [(10, 6), (30, 3)])"

definition permuted_atoms :: "nat \<Rightarrow> (int \<times> real) list" where
  "permuted_atoms i = (if i = 0 then [(10, 2), (30, 1)] else [(30, 3), (10, 6)])"

definition unknown_atoms :: "nat \<Rightarrow> (int \<times> real) list" where
  "unknown_atoms i = (if i = 0 then [(30, 1), (10, 2)] else [(10, 6), (99, 3)])"

section \<open>Basic facts\<close>

lemma bindE_Inl [simp]: "bindE (Inl e) f = Inl e"
  by (simp add: bindE_def)

lemma bindE_Inr [simp]: "bindE (Inr x) f = f x"
  by (simp add: bindE_def)

lemma shape_set_cell:
  assumes "shape M n T"
  shows "shape (set_cell M j t v) n T"
proof (cases "j < length M")
  case True
  then have "M ! j \<in> set M" by simp
  with assms show ?thesis
    unfolding shape_def set_cell_def
    by (auto dest!: set_update_subset_insert [THEN subsetD])
next
  case False
  then have "set_cell M j t v = M"
    by (simp add: set_cell_def not_less list_update_beyond)
  with assms show ?thesis by simp
qed

lemma nth_set_cell:
  "shape M n T \<Longrightarrow> j' < n \<Longrightarrow> t' < T \<Longrightarrow> j < n \<Longrightarrow> t < T \<Longrightarrow>
   set_cell M j t v ! j' ! t' = (if j' = j \<and> t' = t then v else M ! j' ! t')"
  unfolding shape_def set_cell_def
  by (auto simp: nth_list_update)

lemma find_snoc:
  "List.find P (xs @ [x]) = (case List.find P xs of None \<Rightarrow> (if P x then Some x else None) | Some y \<Rightarrow> Some y)"
  by (induction xs) auto

lemma find_app:
  "List.find P (xs @ ys) = (case List.find P xs of None \<Rightarrow> List.find P ys | Some y \<Rightarrow> Some y)"
  by (induction xs) auto


lemma crossing_pair: "crossing x1 M (j, t) = (M ! j ! t \<ge> x1)"
  by (simp add: crossing_def)

lemma scan_cells_snoc:
  "scan_cells x1 (cs @ [(j, t)]) s = scan_cell x1 t j (scan_cells x1 cs s)"
  by (simp add: scan_cells_def)

lemma scan_cells_inv:
  assumes sh: "shape M n T"
  shows "distinct cs \<Longrightarrow> (\<forall>c \<in> set cs. fst c < n \<and> snd c < T) \<Longrightarrow>
     shape (polymerData (scan_cells x1 cs (scan_init M))) n T \<and>
     (\<forall>j < n. \<forall>t < T. polymerData (scan_cells x1 cs (scan_init M)) ! j ! t =
        (if (j, t) \<in> set cs then M ! j ! t / RF else M ! j ! t)) \<and>
     firstMonomerFound (scan_cells x1 cs (scan_init M)) = (List.find (crossing x1 M) cs \<noteq> None) \<and>
     firstMonomerCoords (scan_cells x1 cs (scan_init M)) =
       (case List.find (crossing x1 M) cs of None \<Rightarrow> [] | Some (j, t) \<Rightarrow> [j, t])"
proof (induction cs rule: rev_induct)
  case Nil
  show ?case using sh by (simp add: scan_cells_def scan_init_def)
next
  case (snoc c cs)
  obtain j t where c: "c = (j, t)" by (cases c)
  let ?s = "scan_cells x1 cs (scan_init M)"
  from snoc.prems c have jt: "j < n" "t < T" and notin: "(j, t) \<notin> set cs"
    and d: "distinct cs" and r: "\<forall>c \<in> set cs. fst c < n \<and> snd c < T"
    by auto
  note IH = snoc.IH [OF d r]
  from IH have shs: "shape (polymerData ?s) n T" by blast
  from IH jt notin have raw: "polymerData ?s ! j ! t = M ! j ! t" by simp
  have step: "scan_cells x1 (cs @ [c]) (scan_init M) = scan_cell x1 t j ?s"
    by (simp add: c scan_cells_snoc)
  have pd: "polymerData (scan_cell x1 t j ?s) = set_cell (polymerData ?s) j t (M ! j ! t / RF)"
    using raw by (simp add: scan_cell_def Let_def)
  have 1: "shape (polymerData (scan_cell x1 t j ?s)) n T"
    by (simp add: pd shape_set_cell [OF shs])
  have 2: "\<forall>j' < n. \<forall>t' < T. polymerData (scan_cell x1 t j ?s) ! j' ! t' =
        (if (j', t') \<in> set (cs @ [c]) then M ! j' ! t' / RF else M ! j' ! t')"
    using IH jt by (auto simp: pd c nth_set_cell [OF shs])
  have 3: "firstMonomerFound (scan_cell x1 t j ?s) = (List.find (crossing x1 M) (cs @ [c]) \<noteq> None)"
    using IH raw by (auto simp: scan_cell_def Let_def find_snoc c crossing_pair split: option.splits)
  have 4: "firstMonomerCoords (scan_cell x1 t j ?s) =
       (case List.find (crossing x1 M) (cs @ [c]) of None \<Rightarrow> [] | Some (j, t) \<Rightarrow> [j, t])"
    using IH raw by (auto simp: scan_cell_def Let_def find_snoc c crossing_pair split: option.splits)
  show ?case unfolding step using 1 2 3 4 by blast
qed

lemma scan_flat: "scan x1 n T M = scan_cells x1 (scan_order n T) (scan_init M)"
proof -
  have inner: "\<And>t s. fold (\<lambda>(j, t). scan_cell x1 t j) (map (\<lambda>j. (j, t)) [0..<n]) s
      = fold (\<lambda>j. scan_cell x1 t j) [0..<n] s"
    by (simp add: fold_map comp_def)
  have "\<And>s. fold (\<lambda>(j, t). scan_cell x1 t j) (concat (map (\<lambda>t. map (\<lambda>j. (j, t)) [0..<n]) ts)) s
      = fold (\<lambda>t. fold (\<lambda>j. scan_cell x1 t j) [0..<n]) ts s" for ts
    by (induction ts) (simp_all add: inner)
  then show ?thesis
    by (simp add: scan_def scan_cells_def scan_order_def scan_init_def)
qed

lemma scan_order_Suc: "scan_order n (Suc T) = scan_order n T @ map (\<lambda>j. (j, T)) [0..<n]"
  by (simp add: scan_order_def)

lemma set_scan_order: "set (scan_order n T) = {0..<n} \<times> {0..<T}"
  by (auto simp: scan_order_def)

lemma distinct_scan_order: "distinct (scan_order n T)"
proof (induction T)
  case 0 show ?case by (simp add: scan_order_def)
next
  case (Suc T)
  have "distinct (map (\<lambda>j. (j, T)) [0..<n])"
    by (simp add: distinct_map inj_on_def)
  with Suc show ?case
    by (auto simp: scan_order_Suc set_scan_order)
qed

lemma find_row_None:
  "List.find P (map (\<lambda>j. (j, t)) [0..<n]) = None \<longleftrightarrow> (\<forall>j < n. \<not> P (j, t))"
  by (auto simp: find_None_iff)

lemma find_row:
  "List.find P (map (\<lambda>j. (j, t)) [0..<n]) = Some c \<Longrightarrow>
     fst c < n \<and> snd c = t \<and> P c \<and> (\<forall>j < fst c. \<not> P (j, t))"
proof (induction n)
  case 0 then show ?case by simp
next
  case (Suc n)
  then show ?case
    by (auto simp: find_app find_row_None split: option.splits if_splits dest: less_SucI)
qed

lemma find_scan_order_None:
  "List.find P (scan_order n T) = None \<longleftrightarrow> (\<forall>j < n. \<forall>t < T. \<not> P (j, t))"
  by (auto simp: find_None_iff set_scan_order)

lemma find_scan_order:
  "List.find P (scan_order n T) = Some c \<Longrightarrow>
     fst c < n \<and> snd c < T \<and> P c \<and>
     (\<forall>j < n. \<forall>t < T. P (j, t) \<longrightarrow> snd c < t \<or> (snd c = t \<and> fst c \<le> j))"
proof (induction T)
  case 0 then show ?case by (simp add: scan_order_def)
next
  case (Suc T)
  show ?case
  proof (cases "List.find P (scan_order n T)")
    case (Some d)
    with Suc.prems have "d = c" by (simp add: scan_order_Suc find_app)
    with Some Suc.IH have IH: "fst c < n \<and> snd c < T \<and> P c \<and>
     (\<forall>j < n. \<forall>t < T. P (j, t) \<longrightarrow> snd c < t \<or> (snd c = t \<and> fst c \<le> j))" by simp
    then show ?thesis
      by (auto simp: less_Suc_eq)
  next
    case None
    with Suc.prems have row: "List.find P (map (\<lambda>j. (j, T)) [0..<n]) = Some c"
      by (simp add: scan_order_Suc find_app)
    from find_row [OF row] None show ?thesis
      by (auto simp: find_scan_order_None less_Suc_eq not_less)
  qed
qed

lemma scan_result:
  assumes sh: "shape M n T"
  shows "shape (polymerData (scan x1 n T M)) n T"
    and "\<forall>j < n. \<forall>t < T. polymerData (scan x1 n T M) ! j ! t = M ! j ! t / RF"
    and "firstMonomerCoords (scan x1 n T M) =
       (case List.find (crossing x1 M) (scan_order n T) of None \<Rightarrow> [] | Some (j, t) \<Rightarrow> [j, t])"
proof -
  have r: "\<forall>c \<in> set (scan_order n T). fst c < n \<and> snd c < T"
    by (auto simp: set_scan_order)
  note inv = scan_cells_inv [OF sh distinct_scan_order r, of x1]
  from inv show "shape (polymerData (scan x1 n T M)) n T"
    unfolding scan_flat by blast
  from inv show "\<forall>j < n. \<forall>t < T. polymerData (scan x1 n T M) ! j ! t = M ! j ! t / RF"
    unfolding scan_flat by (simp add: set_scan_order)
  from inv show "firstMonomerCoords (scan x1 n T M) =
       (case List.find (crossing x1 M) (scan_order n T) of None \<Rightarrow> [] | Some (j, t) \<Rightarrow> [j, t])"
    unfolding scan_flat by blast
qed

lemma shape_eqI:
  assumes "shape A n T" "shape B n T" "\<forall>j < n. \<forall>t < T. A ! j ! t = B ! j ! t"
  shows "A = B"
proof (rule nth_equalityI)
  show "length A = length B" using assms by (simp add: shape_def)
next
  fix j assume j: "j < length A"
  then have jn: "j < n" using assms by (simp add: shape_def)
  have la: "length (A ! j) = T" using assms(1) j by (simp add: shape_def)
  have lb: "length (B ! j) = T" using assms(1,2) j by (simp add: shape_def)
  show "A ! j = B ! j"
    by (rule nth_equalityI) (use la lb jn assms(3) in simp_all)
qed

lemma shape_normalised: "shape M n T \<Longrightarrow> shape (map (map (\<lambda>x. x / RF)) M) n T"
  by (simp add: shape_def)

lemma scan_normalises:
  assumes sh: "shape M n T"
  shows "polymerData (scan x1 n T M) = map (map (\<lambda>x. x / RF)) M"
proof (rule shape_eqI [OF scan_result(1) [OF sh] shape_normalised [OF sh]])
  show "\<forall>j<n. \<forall>t<T. polymerData (scan x1 n T M) ! j ! t = map (map (\<lambda>x. x / RF)) M ! j ! t"
    using scan_result(2) [OF sh, of x1] sh by (simp add: shape_def)
qed

lemma scan_first_crossing:
  assumes sh: "shape M n T" and ex: "j < n" "t < T" "M ! j ! t \<ge> x1"
  shows "\<exists>j0 t0. firstMonomerCoords (scan x1 n T M) = [j0, t0] \<and> j0 < n \<and> t0 < T \<and>
           M ! j0 ! t0 \<ge> x1 \<and>
           (\<forall>j < n. \<forall>t < T. M ! j ! t \<ge> x1 \<longrightarrow> t0 < t \<or> (t0 = t \<and> j0 \<le> j))"
proof -
  from ex have "List.find (crossing x1 M) (scan_order n T) \<noteq> None"
    by (auto simp: find_scan_order_None crossing_pair)
  then obtain c where c: "List.find (crossing x1 M) (scan_order n T) = Some c" by blast
  from find_scan_order [OF c] scan_result(3) [OF sh, of x1] c
  show ?thesis
    by (cases c) (simp add: crossing_pair)
qed

lemma scan_no_crossing:
  assumes sh: "shape M n T" and no: "\<forall>j < n. \<forall>t < T. M ! j ! t < x1"
  shows "firstMonomerCoords (scan x1 n T M) = []"
proof -
  from no have "List.find (crossing x1 M) (scan_order n T) = None"
    by (auto simp: find_scan_order_None crossing_pair not_le)
  with scan_result(3) [OF sh, of x1] show ?thesis by simp
qed

lemma find_take:
  "List.find P (take k xs) = Some c \<Longrightarrow> List.find P xs = Some c"
proof -
  assume a: "List.find P (take k xs) = Some c"
  have "List.find P (take k xs @ drop k xs) = Some c"
    unfolding find_app using a by simp
  then show ?thesis by simp
qed

lemma scan_prefix:
  assumes sh: "shape M n T" and k: "k \<le> length (scan_order n T)"
  shows "\<forall>j < n. \<forall>t < T. polymerData (scan_cells x1 (take k (scan_order n T)) (scan_init M)) ! j ! t =
        (if (j, t) \<in> set (take k (scan_order n T)) then M ! j ! t / RF else M ! j ! t)"
    and "firstMonomerCoords (scan_cells x1 (take k (scan_order n T)) (scan_init M)) = [] \<or>
         firstMonomerCoords (scan_cells x1 (take k (scan_order n T)) (scan_init M)) =
         firstMonomerCoords (scan x1 n T M)"
proof -
  let ?cs = "take k (scan_order n T)"
  have d: "distinct ?cs" by (simp add: distinct_scan_order)
  have r: "\<forall>c \<in> set ?cs. fst c < n \<and> snd c < T"
    using set_take_subset [of k "scan_order n T"] by (auto simp: set_scan_order)
  note inv = scan_cells_inv [OF sh d r, of x1]
  from inv show "\<forall>j < n. \<forall>t < T. polymerData (scan_cells x1 ?cs (scan_init M)) ! j ! t =
        (if (j, t) \<in> set ?cs then M ! j ! t / RF else M ! j ! t)" by blast
  show "firstMonomerCoords (scan_cells x1 ?cs (scan_init M)) = [] \<or>
         firstMonomerCoords (scan_cells x1 ?cs (scan_init M)) = firstMonomerCoords (scan x1 n T M)"
  proof (cases "List.find (crossing x1 M) ?cs")
    case None
    with inv show ?thesis by simp
  next
    case (Some c)
    from find_take [OF Some] Some inv scan_result(3) [OF sh, of x1]
    show ?thesis by simp
  qed
qed

lemma scan_reads_raw:
  assumes sh: "shape M n T" and k: "k < length (scan_order n T)"
  shows "polymerData (scan_cells x1 (take k (scan_order n T)) (scan_init M))
           ! fst (scan_order n T ! k) ! snd (scan_order n T ! k)
         = M ! fst (scan_order n T ! k) ! snd (scan_order n T ! k)"
proof -
  let ?xs = "scan_order n T"
  have mem: "?xs ! k \<in> set ?xs" using k by simp
  then have r: "fst (?xs ! k) < n" "snd (?xs ! k) < T"
    by (auto simp: set_scan_order)
  have "?xs ! k \<notin> set (take k ?xs)"
  proof
    assume "?xs ! k \<in> set (take k ?xs)"
    then obtain i where i: "i < k" "take k ?xs ! i = ?xs ! k"
      using k by (auto simp: in_set_conv_nth)
    then have "?xs ! i = ?xs ! k" by simp
    with distinct_scan_order [of n T] i(1) k show False
      by (simp add: nth_eq_iff_index_eq)
  qed
  with scan_prefix(1) [OF sh, of k x1] k r show ?thesis
    by simp
qed

lemma py_nth_simps:
  "k < length xs \<Longrightarrow> py_nth xs k = Inr (xs ! k)"
  "length xs \<le> k \<Longrightarrow> py_nth xs k = Inl IndexError"
  by (simp_all add: py_nth_def)

lemma np_empty1_ok: "0 \<le> c \<Longrightarrow> np_empty1 env k c = Inr (map (\<lambda>t. np_garbage env k t) [0..<nat c])"
  by (simp add: np_empty1_def)

lemma py_trunc_nonneg: "0 \<le> x \<Longrightarrow> 0 \<le> py_trunc x"
  by (simp add: py_trunc_def)

lemma length_set_cell: "length (set_cell M j t v) = length M"
  by (simp add: set_cell_def)

lemma length_set_cell_row: "length (set_cell M j t v ! j') = length (M ! j')"
  by (cases "j < length M"; cases "j' = j")
     (simp_all add: set_cell_def list_update_beyond not_less)

lemma nth_set_cell_gen:
  "j < length M \<Longrightarrow> t < length (M ! j) \<Longrightarrow>
   set_cell M j t v ! j' ! t' = (if j' = j \<and> t' = t then v else M ! j' ! t')"
  by (cases "j' = j") (simp_all add: set_cell_def)

lemma shape_row: "shape M n T \<Longrightarrow> j < n \<Longrightarrow> length (M ! j) = T"
  by (simp add: shape_def)

lemma fill_step_ok:
  assumes "\<bar>int t - int ft\<bar> < float_limit" and "\<bar>dumpStep m\<bar> < float_limit"
  shows "fill_step pd m fi ft t (da, ta) =
     Inr (set_cell (set_cell (set_cell da 0 t (pd ! 0 ! t)) 1 t (pd ! nat (numAtoms m - 1) ! t))
            2 t (pd ! fi ! t),
          set_cell ta 0 t (real_of_int (int t - int ft) * TIMESTEP * real_of_int (dumpStep m)))"
  using assms by (simp add: fill_step_def py_float_of_int_def)

lemma fill_arrays_snoc:
  "fill_arrays pd m fi ft (ts @ [t]) da =
     bindE (fill_arrays pd m fi ft ts da) (fill_step pd m fi ft t)"
proof (induction ts arbitrary: da)
  case Nil
  show ?case by (cases "fill_step pd m fi ft t da") simp_all
next
  case (Cons u us)
  show ?case
    by (cases "fill_step pd m fi ft u da") (simp_all add: Cons.IH)
qed

lemma fill_inv:
  assumes d: "shape da 3 T" and tm: "shape ta 1 T" and k: "k \<le> T"
    and ft: "ft < T" and lim: "int T \<le> float_limit" "\<bar>dumpStep m\<bar> < float_limit"
  shows "\<exists>da' ta'. fill_arrays pd m fi ft [0..<k] (da, ta) = Inr (da', ta') \<and>
     shape da' 3 T \<and> shape ta' 1 T \<and>
     (\<forall>t < T. da' ! 0 ! t = (if t < k then pd ! 0 ! t else da ! 0 ! t) \<and>
               da' ! 1 ! t = (if t < k then pd ! nat (numAtoms m - 1) ! t else da ! 1 ! t) \<and>
               da' ! 2 ! t = (if t < k then pd ! fi ! t else da ! 2 ! t) \<and>
               ta' ! 0 ! t = (if t < k
                  then real_of_int (int t - int ft) * TIMESTEP * real_of_int (dumpStep m)
                  else ta ! 0 ! t))"
  using k
proof (induction k)
  case 0
  show ?case using d tm by simp
next
  case (Suc k)
  then have kT: "k < T" and kle: "k \<le> T" by simp_all
  from Suc.IH [OF kle] obtain d1 t1 where
    f: "fill_arrays pd m fi ft [0..<k] (da, ta) = Inr (d1, t1)" and
    s1: "shape d1 3 T" and s2: "shape t1 1 T" and
    v: "\<forall>t < T. d1 ! 0 ! t = (if t < k then pd ! 0 ! t else da ! 0 ! t) \<and>
               d1 ! 1 ! t = (if t < k then pd ! nat (numAtoms m - 1) ! t else da ! 1 ! t) \<and>
               d1 ! 2 ! t = (if t < k then pd ! fi ! t else da ! 2 ! t) \<and>
               t1 ! 0 ! t = (if t < k
                  then real_of_int (int t - int ft) * TIMESTEP * real_of_int (dumpStep m)
                  else ta ! 0 ! t)"
    by blast
  let ?a = "set_cell d1 0 k (pd ! 0 ! k)"
  let ?b = "set_cell ?a 1 k (pd ! nat (numAtoms m - 1) ! k)"
  let ?c = "set_cell ?b 2 k (pd ! fi ! k)"
  let ?t = "set_cell t1 0 k (real_of_int (int k - int ft) * TIMESTEP * real_of_int (dumpStep m))"
  have sa: "shape ?a 3 T" by (rule shape_set_cell [OF s1])
  have sb: "shape ?b 3 T" by (rule shape_set_cell [OF sa])
  have sc: "shape ?c 3 T" by (rule shape_set_cell [OF sb])
  have st: "shape ?t 1 T" by (rule shape_set_cell [OF s2])
  have conv: "\<bar>int k - int ft\<bar> < float_limit"
    using kT ft lim(1) by linarith
  have step: "fill_arrays pd m fi ft [0..<Suc k] (da, ta) = Inr (?c, ?t)"
    using fill_step_ok [OF conv lim(2), of pd fi d1 t1]
    by (simp add: fill_arrays_snoc f)
  have vals: "\<forall>t < T. ?c ! 0 ! t = (if t < Suc k then pd ! 0 ! t else da ! 0 ! t) \<and>
               ?c ! 1 ! t = (if t < Suc k then pd ! nat (numAtoms m - 1) ! t else da ! 1 ! t) \<and>
               ?c ! 2 ! t = (if t < Suc k then pd ! fi ! t else da ! 2 ! t) \<and>
               ?t ! 0 ! t = (if t < Suc k
                  then real_of_int (int t - int ft) * TIMESTEP * real_of_int (dumpStep m)
                  else ta ! 0 ! t)"
  proof -
    have l: "length d1 = 3" "length (d1 ! 0) = T" "length (d1 ! 1) = T" "length (d1 ! 2) = T"
      "length t1 = 1" "length (t1 ! 0) = T"
      using s1 s2 by (simp_all add: shape_def)
    show ?thesis
      using v kT l
      by (simp add: nth_set_cell_gen length_set_cell length_set_cell_row less_Suc_eq)
  qed
  show ?case unfolding step using sc st vals by blast
qed

lemma preprocess_no_crossing:
  assumes sh: "shape M (nat (numAtoms m)) (nat (py_trunc (numDumps m)))"
    and nd: "0 \<le> numDumps m"
    and no: "\<forall>j < nat (numAtoms m). \<forall>t < nat (py_trunc (numDumps m)). M ! j ! t < x1"
  shows "preprocess env x1 M m = Inl IndexError"
  using scan_no_crossing [OF sh no] py_trunc_nonneg [OF nd]
  by (simp add: preprocess_def np_empty1_ok py_nth_simps)

lemma preprocess_crossing:
  assumes sh: "shape M (nat (numAtoms m)) (nat (py_trunc (numDumps m)))"
    and nd: "0 \<le> numDumps m"
    and co: "firstMonomerCoords (scan x1 (nat (numAtoms m)) (nat (py_trunc (numDumps m))) M) = [j0, t0]"
    and t0: "t0 < nat (py_trunc (numDumps m))"
    and lim: "py_trunc (numDumps m) \<le> float_limit" "\<bar>dumpStep m\<bar> < float_limit"
  shows "\<exists>r. preprocess env x1 M m = Inr r \<and>
     normData r = map (map (\<lambda>x. x / RF)) M \<and>
     firstMonomerIndex r = j0 \<and> firstMonomerTime r = t0 \<and>
     shape (distArray r) 3 (nat (py_trunc (numDumps m))) \<and>
     shape (timeArray r) 1 (nat (py_trunc (numDumps m))) \<and>
     (\<forall>t < nat (py_trunc (numDumps m)).
        distArray r ! 0 ! t = normData r ! 0 ! t \<and>
        distArray r ! 1 ! t = normData r ! nat (numAtoms m - 1) ! t \<and>
        distArray r ! 2 ! t = normData r ! j0 ! t \<and>
        timeArray r ! 0 ! t = real_of_int (int t - int t0) * TIMESTEP * real_of_int (dumpStep m))"
proof -
  let ?T = "nat (py_trunc (numDumps m))"
  let ?g = "\<lambda>k. map (\<lambda>t. np_garbage env k t) [0..<?T]"
  let ?pd = "polymerData (scan x1 (nat (numAtoms m)) ?T M)"
  have d: "shape [?g 0, ?g 1, ?g 2] 3 ?T" by (simp add: shape_def)
  have tm: "shape [?g 3] 1 ?T" by (simp add: shape_def)
  have lT: "int ?T \<le> float_limit"
    using lim(1) py_trunc_nonneg [OF nd] by simp
  from fill_inv [OF d tm order_refl t0 lT lim(2), of ?pd j0]
  obtain da' ta' where
    f: "fill_arrays ?pd m j0 t0 [0..<?T] ([?g 0, ?g 1, ?g 2], [?g 3]) = Inr (da', ta')" and
    s: "shape da' 3 ?T" "shape ta' 1 ?T" and
    v: "\<forall>t < ?T. da' ! 0 ! t = ?pd ! 0 ! t \<and>
               da' ! 1 ! t = ?pd ! nat (numAtoms m - 1) ! t \<and>
               da' ! 2 ! t = ?pd ! j0 ! t \<and>
               ta' ! 0 ! t = real_of_int (int t - int t0) * TIMESTEP * real_of_int (dumpStep m)"
    by auto
  have "preprocess env x1 M m = Inr \<lparr>normData = ?pd, firstMonomerIndex = j0,
             firstMonomerTime = t0, distArray = da', timeArray = ta'\<rparr>"
    using py_trunc_nonneg [OF nd] co f
    by (simp add: preprocess_def np_empty1_ok py_nth_simps)
  with s v scan_normalises [OF sh, of x1] show ?thesis
    by simp
qed

section \<open>Facts about reading a file\<close>

lemma bindE_assoc: "bindE (bindE m f) g = bindE m (\<lambda>x. bindE (f x) g)"
  by (cases m) simp_all

lemma bindE_eq_Inr: "bindE m f = Inr y \<longleftrightarrow> (\<exists>x. m = Inr x \<and> f x = Inr y)"
  by (cases m) simp_all

subsection \<open>idToIndex\<close>

lemma idToIndex_step:
  "build_idToIndex xs (Suc k) = (build_idToIndex xs k)(xs ! k \<mapsto> k)"
  by (simp add: build_idToIndex_def)

lemma idToIndex_Some:
  "build_idToIndex xs k a = Some r \<Longrightarrow> r < k \<and> xs ! r = a"
proof (induction k arbitrary: r)
  case 0
  then show ?case by (simp add: build_idToIndex_def)
next
  case (Suc k)
  then show ?case
    by (auto simp: idToIndex_step less_Suc_eq split: if_splits)
qed

lemma dom_idToIndex:
  "k \<le> length xs \<Longrightarrow> dom (build_idToIndex xs k) = set (take k xs)"
proof (induction k)
  case 0
  show ?case by (simp add: build_idToIndex_def)
next
  case (Suc k)
  then have "dom (build_idToIndex xs k) = set (take k xs)" and "k < length xs"
    by simp_all
  moreover have "dom (build_idToIndex xs (Suc k)) = insert (xs ! k) (dom (build_idToIndex xs k))"
    by (simp only: idToIndex_step dom_fun_upd) simp
  ultimately show ?case
    by (simp add: take_Suc_conv_app_nth)
qed

lemma idToIndex_nth:
  "distinct xs \<Longrightarrow> k \<le> length xs \<Longrightarrow> i < k \<Longrightarrow> build_idToIndex xs k (xs ! i) = Some i"
proof (induction k)
  case 0
  then show ?case by simp
next
  case (Suc k)
  show ?case
  proof (cases "i = k")
    case True
    then show ?thesis by (simp add: idToIndex_step)
  next
    case False
    with Suc.prems have ik: "i < k" and kl: "k < length xs" by simp_all
    with Suc.prems(1) have "xs ! i \<noteq> xs ! k"
      by (simp add: nth_eq_iff_index_eq)
    with Suc.IH [OF Suc.prems(1)] ik kl show ?thesis
      by (simp add: idToIndex_step)
  qed
qed

lemma sorted_Min: "sorted xs \<Longrightarrow> xs \<noteq> [] \<Longrightarrow> Min (set xs) = xs ! 0"
  by (cases xs) (auto intro!: Min_eqI)

lemma sorted_Max: "sorted xs \<Longrightarrow> xs \<noteq> [] \<Longrightarrow> Max (set xs) = xs ! (length xs - 1)"
proof (rule Max_eqI)
  fix y assume "sorted xs" "xs \<noteq> []" "y \<in> set xs"
  then obtain i where "i < length xs" "y = xs ! i" by (auto simp: in_set_conv_nth)
  with \<open>sorted xs\<close> show "y \<le> xs ! (length xs - 1)"
    by (auto intro!: sorted_nth_mono)
qed auto

lemma idToIndex_sorted:
  fixes ids :: "int list"
  assumes d: "distinct ids"
  defines "m \<equiv> build_idToIndex (sort ids) (length ids)"
  shows "dom m = set ids"
    and "bij_betw (\<lambda>a. the (m a)) (set ids) {0..<length ids}"
    and "\<forall>a \<in> set ids. \<forall>b \<in> set ids. (a < b) = (the (m a) < the (m b))"
    and "ids \<noteq> [] \<longrightarrow> m (Min (set ids)) = Some 0 \<and> m (Max (set ids)) = Some (length ids - 1)"
proof -
  let ?xs = "sort ids"
  let ?n = "length ids"
  have dx: "distinct ?xs" and sx: "sorted ?xs" and lx: "length ?xs = ?n" and setx: "set ?xs = set ids"
    using d by simp_all
  have ss: "sorted_wrt (<) ?xs" using dx sx by (simp add: strict_sorted_iff)
  have nth: "\<And>i. i < ?n \<Longrightarrow> m (?xs ! i) = Some i"
    unfolding m_def using idToIndex_nth [OF dx, of ?n] lx by simp
  show dom: "dom m = set ids"
    unfolding m_def using dom_idToIndex [of ?n ?xs] by simp
  have idx: "\<And>a. a \<in> set ids \<Longrightarrow> \<exists>i < ?n. a = ?xs ! i \<and> the (m a) = i"
  proof -
    fix a assume "a \<in> set ids"
    then have "a \<in> set ?xs" by simp
    then obtain i where "i < length ?xs" "?xs ! i = a" by (metis in_set_conv_nth)
    with nth [of i] lx show "\<exists>i < ?n. a = ?xs ! i \<and> the (m a) = i" by auto
  qed
  have mono: "\<And>i j. i < ?n \<Longrightarrow> j < ?n \<Longrightarrow> (?xs ! i < ?xs ! j) = (i < j)"
  proof -
    fix i j assume ij: "i < ?n" "j < ?n"
    show "(?xs ! i < ?xs ! j) = (i < j)"
    proof
      assume "i < j"
      with ss ij lx show "?xs ! i < ?xs ! j" by (simp add: sorted_wrt_nth_less)
    next
      assume l: "?xs ! i < ?xs ! j"
      show "i < j"
      proof (rule ccontr)
        assume "\<not> i < j"
        then have "j \<le> i" by simp
        with sx ij lx have "?xs ! j \<le> ?xs ! i" by (simp add: sorted_nth_mono)
        with l show False by simp
      qed
    qed
  qed
  show "\<forall>a \<in> set ids. \<forall>b \<in> set ids. (a < b) = (the (m a) < the (m b))"
  proof (intro ballI)
    fix a b assume "a \<in> set ids" "b \<in> set ids"
    from idx [OF this(1)] idx [OF this(2)] obtain i j where
      "i < ?n" "a = ?xs ! i" "the (m a) = i" "j < ?n" "b = ?xs ! j" "the (m b) = j" by blast
    with mono [of i j] show "(a < b) = (the (m a) < the (m b))" by simp
  qed
  show "bij_betw (\<lambda>a. the (m a)) (set ids) {0..<?n}"
  proof (rule bij_betw_imageI)
    show "inj_on (\<lambda>a. the (m a)) (set ids)"
    proof (rule inj_onI)
      fix a b assume ab: "a \<in> set ids" "b \<in> set ids" "the (m a) = the (m b)"
      from idx [OF ab(1)] idx [OF ab(2)] ab(3) show "a = b" by auto
    qed
    show "(\<lambda>a. the (m a)) ` set ids = {0..<?n}"
    proof (intro equalityI subsetI)
      fix r assume "r \<in> (\<lambda>a. the (m a)) ` set ids"
      then obtain a where "a \<in> set ids" "r = the (m a)" by blast
      with idx [of a] show "r \<in> {0..<?n}" by auto
    next
      fix r assume "r \<in> {0..<?n}"
      then have r: "r < ?n" by simp
      then have "?xs ! r \<in> set ?xs" using lx by (metis nth_mem)
      then have "?xs ! r \<in> set ids" by simp
      moreover have "the (m (?xs ! r)) = r" using nth [OF r] by simp
      ultimately show "r \<in> (\<lambda>a. the (m a)) ` set ids" by force
    qed
  qed
  show "ids \<noteq> [] \<longrightarrow> m (Min (set ids)) = Some 0 \<and> m (Max (set ids)) = Some (?n - 1)"
  proof
    assume ne: "ids \<noteq> []"
    then have nex: "?xs \<noteq> []" and pos: "0 < ?n"
      using lx by (auto simp del: length_sort)
    from sorted_Min [OF sx nex] have "Min (set ids) = ?xs ! 0" by simp
    moreover from sorted_Max [OF sx nex] have "Max (set ids) = ?xs ! (?n - 1)" by simp
    ultimately show "m (Min (set ids)) = Some 0 \<and> m (Max (set ids)) = Some (?n - 1)"
      using nth [of 0] nth [of "?n - 1"] pos by simp
  qed
qed

subsection \<open>The first chunk\<close>

lemma read_atomList_Inr:
  "read_atomList env lines is acc = Inr r \<longleftrightarrow>
     (\<exists>ids. list_all2 (\<lambda>i a. line_id env lines (i + 9) = Inr a) is ids \<and> r = acc @ ids)"
proof (induction "is" arbitrary: acc)
  case Nil
  show ?case by auto
next
  case (Cons i "is")
  show ?case
    by (auto simp: Cons.IH line_id_def bindE_eq_Inr list_all2_Cons1)
qed

lemma read_atomList_length:
  "read_atomList env lines [0..<n] [] = Inr ids \<Longrightarrow> length ids = n"
  by (auto simp: read_atomList_Inr dest: list_all2_lengthD)

lemma line_atom_id: "line_atom env lines j = Inr (a, x) \<Longrightarrow> line_id env lines j = Inr a"
  by (auto simp: line_atom_def line_id_def parse_atom_line_def bindE_eq_Inr)

lemma record_lines_Cons:
  "record_lines env lines d i (j # js) M =
     bindE (line_atom env lines j) (\<lambda>(a, x).
     bindE (dict_get d a) (\<lambda>r. record_lines env lines d i js (set_cell M r i x)))"
  by (simp add: line_atom_def bindE_assoc)

lemma line_writes_Cons:
  "line_writes env lines d i (j # js) =
     bindE (line_atom env lines j) (\<lambda>(a, x).
     bindE (dict_get d a) (\<lambda>r.
     bindE (line_writes env lines d i js) (\<lambda>ws. Inr (((r, i), x) # ws))))"
  by (simp add: line_atom_def bindE_assoc)

lemma apply_writes_Nil: "apply_writes [] M = M"
  by (simp add: apply_writes_def)

lemma apply_writes_Cons: "apply_writes (((r, i), x) # ws) M = apply_writes ws (set_cell M r i x)"
  by (simp add: apply_writes_def)

lemma apply_writes_append: "apply_writes (ws @ ws') M = apply_writes ws' (apply_writes ws M)"
  by (simp add: apply_writes_def)

lemma record_lines_writes:
  "record_lines env lines d i js M =
     bindE (line_writes env lines d i js) (\<lambda>ws. Inr (apply_writes ws M))"
proof (induction js arbitrary: M)
  case Nil
  show ?case by (simp add: apply_writes_Nil)
next
  case (Cons j js)
  show ?case
  proof (cases "line_atom env lines j")
    case (Inl e)
    then show ?thesis by (simp del: record_lines.simps line_writes.simps add: record_lines_Cons line_writes_Cons)
  next
    case (Inr p)
    obtain a x where p: "p = (a, x)" by (cases p)
    show ?thesis
    proof (cases "dict_get d a")
      case (Inl e)
      then show ?thesis by (simp del: record_lines.simps line_writes.simps add: record_lines_Cons line_writes_Cons Inr p)
    next
      case r: (Inr r)
      show ?thesis
        by (cases "line_writes env lines d i js")
           (simp_all del: record_lines.simps line_writes.simps add: record_lines_Cons line_writes_Cons Inr p r Cons.IH apply_writes_Cons)
    qed
  qed
qed

lemma record_dumps_writes:
  "record_dumps env lines d n is M =
     bindE (dump_writes env lines d n is) (\<lambda>ws. Inr (apply_writes ws M))"
proof (induction "is" arbitrary: M)
  case Nil
  show ?case by (simp add: apply_writes_Nil)
next
  case (Cons i "is")
  show ?case
  proof (cases "line_writes env lines d i [i * (n + 9) + 9..<i * (n + 9) + 9 + n]")
    case (Inl e)
    then show ?thesis by (simp add: record_lines_writes Let_def)
  next
    case (Inr ws)
    then show ?thesis
      by (cases "dump_writes env lines d n is")
         (simp_all add: record_lines_writes Let_def Cons.IH apply_writes_append)
  qed
qed

lemma assemble_by_writes:
  "assemble env lines n T M0 =
     bindE (assemble_writes env lines n T) (\<lambda>ws. Inr (apply_writes ws M0))"
  by (cases "read_atomList env lines [0..<n] []")
     (simp_all add: assemble_def assemble_writes_def Let_def record_dumps_writes)

lemma line_writes_parsed:
  "list_all2 (\<lambda>j p. line_atom env lines j = Inr p) js ps \<Longrightarrow>
   line_writes env lines d i js =
     (if fst ` set ps \<subseteq> dom d then Inr (chunk_writes d i ps) else Inl KeyError)"
proof (induction js ps rule: list_all2_induct)
  case Nil
  show ?case by (simp add: chunk_writes_def)
next
  case (Cons j js p ps)
  obtain a x where p: "p = (a, x)" by (cases p)
  show ?case
  proof (cases "d a")
    case None
    then have "a \<notin> dom d" by auto
    with None Cons.hyps(1) show ?thesis
      by (simp del: line_writes.simps add: line_writes_Cons p dict_get_def)
  next
    case (Some r)
    then have "a \<in> dom d" by auto
    with Some Cons.hyps(1) Cons.IH show ?thesis
      by (simp del: line_writes.simps add: line_writes_Cons p dict_get_def chunk_writes_def)
  qed
qed

lemma chunk_atoms_all2:
  "chunk_atoms env lines n i = map Inr ps \<longleftrightarrow>
     list_all2 (\<lambda>j p. line_atom env lines j = Inr p) [i * (n + 9) + 9..<i * (n + 9) + 9 + n] ps"
proof -
  have "\<And>f xs. (map f xs = map Inr ps) = list_all2 (\<lambda>x p. f x = Inr p) xs ps"
    by (auto simp: list_eq_iff_nth_eq list_all2_conv_all_nth)
  then show ?thesis by (simp add: chunk_atoms_def)
qed

lemma chunk_atoms_length: "chunk_atoms env lines n i = map Inr ps \<Longrightarrow> length ps = n"
  by (auto simp: chunk_atoms_all2 dest: list_all2_lengthD)

lemma dump_writes_parsed:
  "\<forall>i \<in> set is. chunk_atoms env lines n i = map Inr (ps i) \<Longrightarrow>
   dump_writes env lines d n is =
     (if \<forall>i \<in> set is. fst ` set (ps i) \<subseteq> dom d
      then Inr (concat (map (\<lambda>i. chunk_writes d i (ps i)) is)) else Inl KeyError)"
proof (induction "is")
  case Nil
  show ?case by simp
next
  case (Cons i "is")
  from Cons.prems have c: "list_all2 (\<lambda>j p. line_atom env lines j = Inr p)
      [i * (n + 9) + 9..<i * (n + 9) + 9 + n] (ps i)"
    by (simp add: chunk_atoms_all2)
  from Cons.prems have "\<forall>i \<in> set is. chunk_atoms env lines n i = map Inr (ps i)" by simp
  note IH = Cons.IH [OF this]
  show ?case
    by (simp add: Let_def line_writes_parsed [OF c] IH)
qed

lemma read_atomList_chunk0:
  assumes "chunk_atoms env lines n 0 = map Inr ps"
  shows "read_atomList env lines [0..<n] [] = Inr (map fst ps)"
proof -
  from assms have a: "list_all2 (\<lambda>j p. line_atom env lines j = Inr p) [9..<9 + n] ps"
    by (simp add: chunk_atoms_all2)
  have "[9..<9 + n] = map (\<lambda>i. i + 9) [0..<n]"
    by (simp add: map_add_upt add.commute)
  with a have "list_all2 (\<lambda>i p. line_atom env lines (i + 9) = Inr p) [0..<n] ps"
    by (simp add: list_all2_map1)
  then have "list_all2 (\<lambda>i a. line_id env lines (i + 9) = Inr a) [0..<n] (map fst ps)"
    unfolding list_all2_map2
    by (rule list_all2_mono) (auto intro: line_atom_id)
  then show ?thesis
    by (simp add: read_atomList_Inr)
qed

lemma dom_idToIndex_sort: "length ids = n \<Longrightarrow> dom (build_idToIndex (sort ids) n) = set ids"
  using dom_idToIndex [of n "sort ids"] by simp

lemma assemble_writes_parsed:
  assumes T: "0 < T" and c: "\<forall>i < T. chunk_atoms env lines n i = map Inr (ps i)"
  shows "assemble_writes env lines n T =
     (if \<forall>i < T. fst ` set (ps i) \<subseteq> fst ` set (ps 0)
      then Inr (concat (map (\<lambda>i. chunk_writes (build_idToIndex (sort (map fst (ps 0))) n) i (ps i))
                  [0..<T]))
      else Inl KeyError)"
proof -
  from T c have c0: "chunk_atoms env lines n 0 = map Inr (ps 0)" by simp
  have l: "length (map fst (ps 0)) = n" using chunk_atoms_length [OF c0] by simp
  have c': "\<forall>i \<in> set [0..<T]. chunk_atoms env lines n i = map Inr (ps i)" using c by simp
  show ?thesis
    by (simp add: assemble_writes_def read_atomList_chunk0 [OF c0] Let_def
          dump_writes_parsed [OF c'] dom_idToIndex_sort [OF l])
qed

subsection \<open>The header\<close>

lemma process_file_short: "length lines < 4 \<Longrightarrow> process_file env lines = Inr None"
  by (simp add: process_file_def)

lemma process_file_one_chunk:
  assumes "4 \<le> length lines" and "py_int env (butlast (lines ! 3)) = Some k"
    and "int (length lines) < k + 9 + 2"
  shows "process_file env lines = Inr None"
proof -
  from assms(1,3) have "k + 9 \<noteq> 0" by linarith
  with assms show ?thesis
    by (simp add: process_file_def parse_int_def py_truediv_def Let_def)
qed

lemma trunc_div: "py_trunc (real_of_int (int a) / real_of_int (int b)) = int (a div b)"
proof -
  have "0 \<le> real_of_int (int a) / real_of_int (int b)" by simp
  then have "py_trunc (real_of_int (int a) / real_of_int (int b))
      = \<lfloor>real_of_int (int a) / real_of_int (int b)\<rfloor>"
    by (simp only: py_trunc_def if_True)
  also have "\<dots> = int a div int b" by (rule floor_divide_of_int_eq)
  also have "\<dots> = int (a div b)" by (simp add: zdiv_int)
  finally show ?thesis .
qed

lemma shape_garbage: "shape (garbage_matrix env n T) n T"
  by (auto simp: shape_def garbage_matrix_def)

lemma process_file_header:
  assumes n: "py_int env (butlast (lines ! 3)) = Some (int n)"
    and len: "n + 9 + 2 \<le> length lines"
    and step: "py_int env (butlast (lines ! (n + 9 + 1))) = Some dS"
  shows "process_file env lines =
     bindE (assemble env lines n (length lines div (n + 9))
              (garbage_matrix env n (length lines div (n + 9))))
       (\<lambda>M. Inr (Some (M, \<lparr>numAtoms = int n,
                           numDumps = real (length lines) / real (n + 9), dumpStep = dS\<rparr>)))"
proof -
  have tr: "py_trunc (real (length lines) / (real n + 9)) = int (length lines div (n + 9))"
    using trunc_div [of "length lines" "n + 9"] by simp
  have st: "nat (10 + int n) = 10 + n"
    by linarith
  show ?thesis
    using len step
    by (simp add: process_file_def parse_int_def n Let_def py_truediv_def py_index_def
          np_empty_def garbage_matrix_def tr st)
qed

subsection \<open>Replaying the assignments\<close>

lemma shape_apply_writes: "shape M n T \<Longrightarrow> shape (apply_writes ws M) n T"
proof (induction ws arbitrary: M)
  case Nil
  then show ?case by (simp add: apply_writes_Nil)
next
  case (Cons w ws)
  obtain r i x where w: "w = ((r, i), x)" by (cases w) auto
  from Cons show ?case
    by (simp add: w apply_writes_Cons shape_set_cell)
qed

lemma apply_writes_nth:
  assumes "shape M n T" "distinct (map fst ws)" "fst ` set ws \<subseteq> {0..<n} \<times> {0..<T}"
    "r < n" "i < T"
  shows "apply_writes ws M ! r ! i = (case map_of ws (r, i) of None \<Rightarrow> M ! r ! i | Some x \<Rightarrow> x)"
  using assms(1-3)
proof (induction ws arbitrary: M)
  case Nil
  then show ?case by (simp add: apply_writes_Nil)
next
  case (Cons w ws)
  obtain r' i' x where w: "w = ((r', i'), x)" by (cases w) auto
  from Cons.prems w have in': "r' < n" "i' < T" and notin: "(r', i') \<notin> fst ` set ws"
    and d: "distinct (map fst ws)" and sub: "fst ` set ws \<subseteq> {0..<n} \<times> {0..<T}"
    by auto
  have sh: "shape (set_cell M r' i' x) n T" by (rule shape_set_cell [OF Cons.prems(1)])
  note IH = Cons.IH [OF sh d sub]
  show ?case
  proof (cases "(r, i) = (r', i')")
    case True
    with notin have "map_of ws (r, i) = None" by (simp add: map_of_eq_None_iff)
    with True IH in' assms(4,5) Cons.prems(1) show ?thesis
      by (simp add: w apply_writes_Cons nth_set_cell)
  next
    case False
    with IH in' assms(4,5) Cons.prems(1) show ?thesis
      by (auto simp: w apply_writes_Cons nth_set_cell split: option.split)
  qed
qed

lemma file_writes_Suc:
  "file_writes n (Suc T) ps =
     file_writes n T ps @ chunk_writes (build_idToIndex (sort (map fst (ps 0))) n) T (ps T)"
  by (simp add: file_writes_def)

lemma process_file_parsed:
  assumes n: "py_int env (butlast (lines ! 3)) = Some (int n)"
    and len: "n + 9 + 2 \<le> length lines"
    and step: "py_int env (butlast (lines ! (n + 9 + 1))) = Some dS"
    and c: "\<forall>i < length lines div (n + 9). chunk_atoms env lines n i = map Inr (ps i)"
  shows "process_file env lines =
     (if \<forall>i < length lines div (n + 9). fst ` set (ps i) \<subseteq> fst ` set (ps 0)
      then Inr (Some (apply_writes (file_writes n (length lines div (n + 9)) ps)
                        (garbage_matrix env n (length lines div (n + 9))),
                 \<lparr>numAtoms = int n, numDumps = real (length lines) / real (n + 9),
                  dumpStep = dS\<rparr>))
      else Inl KeyError)"
proof -
  have "n + 9 \<le> length lines" using len by simp
  then have "(n + 9) div (n + 9) \<le> length lines div (n + 9)" by (rule div_le_mono)
  then have T: "0 < length lines div (n + 9)" by simp
  show ?thesis
    unfolding process_file_header [OF n len step] assemble_by_writes
      assemble_writes_parsed [OF T c] file_writes_def
    by simp
qed

subsection \<open>The cells that a file writes\<close>

lemma count_one_mset:
  fixes ids xs :: "int list"
  assumes "\<forall>a \<in> set ids. count_list ids a = 1" "\<forall>a \<in> set ids. count_list xs a = 1"
    "length xs = length ids"
  shows "distinct ids" and "mset xs = mset ids"
proof -
  show d: "distinct ids"
    unfolding distinct_count_atmost_1 using assms(1)
    by (auto simp: count_mset count_list_0_iff)
  have "mset ids \<subseteq># mset xs"
  proof (rule mset_subset_eqI)
    fix a show "count (mset ids) a \<le> count (mset xs) a"
      using assms(1,2) by (cases "a \<in> set ids") (auto simp: count_mset count_list_0_iff)
  qed
  moreover have "size (mset ids) = size (mset xs)" using assms(3) by simp
  ultimately show "mset xs = mset ids"
    using mset_subset_size [of "mset ids" "mset xs"]
    by (cases "mset ids = mset xs") (simp_all add: subset_mset.less_le del: size_mset)
qed

lemma chunk_targets:
  fixes ids :: "int list"
  assumes d: "distinct ids" and m: "mset (map fst ps) = mset ids"
  shows "distinct (map fst (chunk_writes (build_idToIndex (sort ids) (length ids)) i ps))"
    and "set (map fst (chunk_writes (build_idToIndex (sort ids) (length ids)) i ps))
           = {0..<length ids} \<times> {i}"
proof -
  let ?d = "build_idToIndex (sort ids) (length ids)"
  have tg: "map fst (chunk_writes ?d i ps) = map (\<lambda>a. (the (?d a), i)) (map fst ps)"
    by (auto simp: chunk_writes_def)
  have s: "set (map fst ps) = set ids" using m by (rule mset_eq_setD)
  have dp: "distinct (map fst ps)" using mset_eq_imp_distinct_iff [OF m] d by simp
  from idToIndex_sorted(2) [OF d] have bij: "bij_betw (\<lambda>a. the (?d a)) (set ids) {0..<length ids}" .
  then have inj: "inj_on (\<lambda>a. the (?d a)) (set ids)" by (rule bij_betw_imp_inj_on)
  have "inj_on (\<lambda>a. (the (?d a), i)) (set (map fst ps))"
    unfolding s using inj by (auto simp: inj_on_def)
  with dp show "distinct (map fst (chunk_writes ?d i ps))"
    unfolding tg by (simp only: distinct_map simp_thms)
  have "(\<lambda>a. the (?d a)) ` set ids = {0..<length ids}"
    using bij by (rule bij_betw_imp_surj_on)
  then have "(\<lambda>a. (the (?d a), i)) ` set ids = {0..<length ids} \<times> {i}"
    by (auto simp: image_iff)
  then show "set (map fst (chunk_writes ?d i ps)) = {0..<length ids} \<times> {i}"
    unfolding tg using s by (simp only: set_map)
qed

lemma file_targets:
  assumes d: "distinct (map fst (ps 0))" and l: "length (ps 0) = n"
    and m: "\<forall>i < T. mset (map fst (ps i)) = mset (map fst (ps 0))"
  shows "distinct (map fst (file_writes n T ps)) \<and>
         set (map fst (file_writes n T ps)) = {0..<n} \<times> {0..<T}"
  using m
proof (induction T)
  case 0
  show ?case by (simp add: file_writes_def)
next
  case (Suc T)
  have mm: "\<forall>i < T. mset (map fst (ps i)) = mset (map fst (ps 0))"
    using Suc.prems less_Suc_eq by blast
  from Suc.IH [OF mm] have IH: "distinct (map fst (file_writes n T ps))"
      "set (map fst (file_writes n T ps)) = {0..<n} \<times> {0..<T}"
    by blast+
  from Suc.prems have mT: "mset (map fst (ps T)) = mset (map fst (ps 0))" by blast
  have ln: "length (map fst (ps 0)) = n" using l by simp
  note ct = chunk_targets [OF d mT, of T, unfolded ln]
  have dj: "({0..<n} \<times> {0..<T}) \<inter> ({0..<n} \<times> {T}) = {}"
    by auto
  have "distinct (map fst (file_writes n (Suc T) ps))"
    unfolding file_writes_Suc map_append distinct_append
    using IH ct dj by (simp only: simp_thms)
  moreover have "set (map fst (file_writes n (Suc T) ps)) = {0..<n} \<times> {0..<Suc T}"
    unfolding file_writes_Suc map_append set_append
    using IH(2) ct(2) by auto
  ultimately show ?case by blast
qed

section \<open>The sample files\<close>

lemmas sample_eval =
  header_def atom_line_def env0_def parse_int_def parse_float_def py_truediv_def py_trunc_def
  py_index_def np_empty_def garbage_matrix_def dec_int_def digit_val_def build_idToIndex_def
  set_cell_def py_nth_def py_split_def is_space_def atom_id_def parse_atom_line_def dict_get_def
  line_atom_def line_id_def chunk_atoms_def upt_rec Let_def

lemma all_less_2: "P 0 \<Longrightarrow> P 1 \<Longrightarrow> \<forall>i < (2::nat). P i"
  by (auto simp: less_2_cases_iff)

lemma sample_file_chunks:
  "\<forall>i < 2. chunk_atoms env0 sample_file 2 i = map Inr (sample_atoms i)"
  by (rule all_less_2) (simp_all add: sample_file_def sample_atoms_def sample_eval)

lemma sample_truncated_chunks:
  "\<forall>i < 2. chunk_atoms env0 sample_truncated 2 i = map Inr (sample_atoms i)"
  by (rule all_less_2)
     (simp_all add: sample_truncated_def sample_file_def sample_atoms_def sample_eval)

lemma sample_permuted_chunks:
  "\<forall>i < 2. chunk_atoms env0 sample_permuted 2 i = map Inr (permuted_atoms i)"
  by (rule all_less_2) (simp_all add: sample_permuted_def permuted_atoms_def sample_eval)

lemma sample_unknown_chunks:
  "\<forall>i < 2. chunk_atoms env0 sample_unknown 2 i = map Inr (unknown_atoms i)"
  by (rule all_less_2) (simp_all add: sample_unknown_def unknown_atoms_def sample_eval)

lemma sample_lengths:
  "length sample_file = 22" "length sample_truncated = 25" "length sample_unknown = 22"
  "length sample_short = 4"
  by (simp_all add: sample_file_def sample_truncated_def sample_unknown_def sample_short_def
        header_def)

lemma sample_header:
  "py_int env0 (butlast (sample_file ! 3)) = Some (int 2)"
  "py_int env0 (butlast (sample_file ! (2 + 9 + 1))) = Some 100"
  "py_int env0 (butlast (sample_truncated ! 3)) = Some (int 2)"
  "py_int env0 (butlast (sample_truncated ! (2 + 9 + 1))) = Some 100"
  "py_int env0 (butlast (sample_unknown ! 3)) = Some (int 2)"
  "py_int env0 (butlast (sample_unknown ! (2 + 9 + 1))) = Some 100"
  "py_int env0 (butlast (sample_short ! 3)) = Some 1"
  by (simp_all add: sample_file_def sample_truncated_def sample_unknown_def sample_short_def
        sample_eval)

lemma sample_file_result:
  "process_file env0 sample_file =
     Inr (Some ([[2, 6], [1, 3]], \<lparr>numAtoms = 2, numDumps = 2, dumpStep = 100\<rparr>))"
  by (simp add: process_file_def assemble_def sample_file_def sample_eval)

lemma sample_truncated_result:
  "process_file env0 sample_truncated =
     Inr (Some ([[2, 6], [1, 3]], \<lparr>numAtoms = 2, numDumps = 25 / 11, dumpStep = 100\<rparr>))"
  by (simp add: process_file_def assemble_def sample_truncated_def sample_file_def sample_eval)

lemma sample_duplicate_result:
  "process_file env0 sample_duplicate =
     Inr (Some ([[0, 0], [6, 8]], \<lparr>numAtoms = 2, numDumps = 2, dumpStep = 100\<rparr>))"
  by (simp add: process_file_def assemble_def sample_duplicate_def sample_eval)

lemma sample_duplicate_ids:
  "read_atomList env0 sample_duplicate [0..<2] [] = Inr [1, 1]"
  by (simp add: sample_duplicate_def sample_eval)

lemma sample_file_ids:
  "read_atomList env0 sample_file [0..<2] [] = Inr [30, 10]"
  by (simp add: sample_file_def sample_eval)

lemma dec_nat_zeros: "dec_nat acc (replicate k CHR ''0'') = Some (acc * 10 ^ k)"
  by (induction k arbitrary: acc) (simp_all add: digit_val_def)

lemma huge_step_parses: "py_int env0 huge_step = Some (10 ^ 400)"
proof -
  have "dec_nat 0 huge_step = Some (10 ^ 400)"
    unfolding huge_step_def by (simp add: digit_val_def dec_nat_zeros)
  moreover have "huge_step \<noteq> []" "huge_step \<noteq> ''-''" "hd huge_step \<noteq> CHR ''-''"
    by (simp_all add: huge_step_def)
  ultimately show ?thesis
    by (simp add: env0_def dec_int_def)
qed

lemma huge_file_chunks:
  "\<forall>i < 2. chunk_atoms env0 huge_file 2 i = map Inr (huge_atoms i)"
  by (rule all_less_2) (simp_all add: huge_file_def huge_atoms_def sample_eval)

lemma huge_file_result:
  "process_file env0 huge_file = Inr (Some (sample_matrix, huge_meta))"
proof -
  have len: "length huge_file = 22"
    by (simp add: huge_file_def header_def)
  have n: "py_int env0 (butlast (huge_file ! 3)) = Some (int 2)"
    by (simp add: huge_file_def header_def env0_def dec_int_def digit_val_def)
  have l: "2 + 9 + 2 \<le> length huge_file"
    by (simp add: len)
  have "huge_file ! (2 + 9 + 1) = huge_step @ [CHR 0x0A]"
    by (simp add: huge_file_def header_def)
  then have st: "py_int env0 (butlast (huge_file ! (2 + 9 + 1))) = Some (10 ^ 400)"
    by (simp add: huge_step_parses)
  have c: "\<forall>i < length huge_file div (2 + 9). chunk_atoms env0 huge_file 2 i = map Inr (huge_atoms i)"
    unfolding len using huge_file_chunks by simp
  have sub: "\<forall>i < length huge_file div (2 + 9). fst ` set (huge_atoms i) \<subseteq> fst ` set (huge_atoms 0)"
    unfolding len by (simp add: huge_atoms_def)
  have M: "apply_writes (file_writes 2 2 huge_atoms) (garbage_matrix env0 2 2) = sample_matrix"
    by (simp add: file_writes_def chunk_writes_def huge_atoms_def build_idToIndex_def
          apply_writes_def set_cell_def garbage_matrix_def env0_def sample_matrix_def upt_rec)
  have "length huge_file div (2 + 9) = 2" by (simp add: len)
  with process_file_parsed [OF n l st c] sub M show ?thesis
    by (simp add: len huge_meta_def)
qed

section \<open>Further facts about the assignments\<close>

lemma chunk_atoms_prefix:
  assumes i: "i < T" and l: "T * (n + 9) \<le> length lines" "T * (n + 9) \<le> length lines'"
    and t: "take (T * (n + 9)) lines' = take (T * (n + 9)) lines"
  shows "chunk_atoms env lines' n i = chunk_atoms env lines n i"
proof -
  have "\<And>j. j < T * (n + 9) \<Longrightarrow> line_atom env lines' j = line_atom env lines j"
  proof -
    fix j assume j: "j < T * (n + 9)"
    have "lines' ! j = take (T * (n + 9)) lines' ! j" using j by simp
    also have "\<dots> = lines ! j" using j t by simp
    finally show "line_atom env lines' j = line_atom env lines j"
      using j l by (simp add: line_atom_def py_nth_def)
  qed
  moreover have "\<And>j. j < i * (n + 9) + 9 + n \<Longrightarrow> j < T * (n + 9)"
  proof -
    fix j assume "j < i * (n + 9) + 9 + n"
    then have "j < Suc i * (n + 9)" by simp
    also have "\<dots> \<le> T * (n + 9)" using i by (intro mult_le_mono1) simp
    finally show "j < T * (n + 9)" .
  qed
  ultimately show ?thesis
    by (simp add: chunk_atoms_def)
qed

lemma set_file_writes:
  "set (file_writes n T ps) =
     (\<Union>i \<in> {0..<T}. set (chunk_writes (build_idToIndex (sort (map fst (ps 0))) n) i (ps i)))"
  by (auto simp: file_writes_def)

lemma apply_writes_cover:
  assumes sh: "shape M n T" "shape M' n T"
    and d: "distinct (map fst ws)" "distinct (map fst ws')"
    and c: "set (map fst ws) = {0..<n} \<times> {0..<T}"
    and s: "set ws' = set ws"
  shows "apply_writes ws' M' = apply_writes ws M"
proof (rule shape_eqI [OF shape_apply_writes [OF sh(2)] shape_apply_writes [OF sh(1)]],
    intro allI impI)
  fix r i assume ri: "r < n" "i < T"
  have mo: "map_of ws' = map_of ws"
    using map_of_inject_set [OF d(2) d(1)] s by simp
  have c': "fst ` set ws' \<subseteq> {0..<n} \<times> {0..<T}" "fst ` set ws \<subseteq> {0..<n} \<times> {0..<T}"
    using c s by auto
  from ri c have "(r, i) \<in> fst ` set ws" by auto
  then obtain x where x: "map_of ws (r, i) = Some x"
    by (metis map_of_eq_None_iff not_Some_eq)
  show "apply_writes ws' M' ! r ! i = apply_writes ws M ! r ! i"
    using apply_writes_nth [OF sh(2) d(2) c'(1) ri] apply_writes_nth [OF sh(1) d(1) c'(2) ri]
    by (simp add: mo x)
qed

section \<open>The crossing event and the normalisation\<close>

text \<open>
  Claim C1. For an array of \<open>n\<close> atoms and \<open>T\<close> timesteps in which some cell is at or
  beyond the threshold \<open>x1\<close>, the scan records the pair (atom index, timestep index) of
  the first such cell in time-major order: no cell of an earlier timestep, and no cell of
  a lower atom index at the same timestep, reaches \<open>x1\<close>; the comparison is on the raw
  coordinate. At every moment of the scan the recorded pair is either still missing or
  already this one, so a recorded crossing is never replaced.
\<close>

theorem first_crossing_time_major:
  assumes "shape M n T" and "\<exists>j < n. \<exists>t < T. M ! j ! t \<ge> x1"
  shows "\<exists>j0 t0. firstMonomerCoords (scan x1 n T M) = [j0, t0] \<and> j0 < n \<and> t0 < T \<and>
           M ! j0 ! t0 \<ge> x1 \<and>
           (\<forall>j < n. \<forall>t < T. M ! j ! t \<ge> x1 \<longrightarrow> t0 < t \<or> (t0 = t \<and> j0 \<le> j)) \<and>
           (\<forall>k \<le> length (scan_order n T).
              firstMonomerCoords (scan_cells x1 (take k (scan_order n T)) (scan_init M))
                \<in> {[], [j0, t0]})"
proof -
  from assms(2) obtain j t where "j < n" "t < T" "M ! j ! t \<ge> x1" by blast
  from scan_first_crossing [OF assms(1) this]
  obtain j0 t0 where *: "firstMonomerCoords (scan x1 n T M) = [j0, t0]" "j0 < n" "t0 < T"
     "M ! j0 ! t0 \<ge> x1"
     "\<forall>j < n. \<forall>t < T. M ! j ! t \<ge> x1 \<longrightarrow> t0 < t \<or> (t0 = t \<and> j0 \<le> j)"
    by blast
  have "\<forall>k \<le> length (scan_order n T).
              firstMonomerCoords (scan_cells x1 (take k (scan_order n T)) (scan_init M))
                \<in> {[], [j0, t0]}"
    using scan_prefix(2) [OF assms(1), of _ x1] *(1) by auto
  with * show ?thesis by blast
qed

theorem first_crossing_time_major_witness:
  "shape sample_matrix 2 2 \<and> (\<exists>j < 2. \<exists>t < 2. sample_matrix ! j ! t \<ge> 5) \<and>
   firstMonomerCoords (scan 5 2 2 sample_matrix) = [1, 0] \<and>
   (\<exists>j0 t0. firstMonomerCoords (scan 5 2 2 sample_matrix) = [j0, t0] \<and> j0 < 2 \<and> t0 < 2 \<and>
           sample_matrix ! j0 ! t0 \<ge> 5 \<and>
           (\<forall>j < 2. \<forall>t < 2. sample_matrix ! j ! t \<ge> 5 \<longrightarrow> t0 < t \<or> (t0 = t \<and> j0 \<le> j)) \<and>
           (\<forall>k \<le> length (scan_order 2 2).
              firstMonomerCoords (scan_cells 5 (take k (scan_order 2 2)) (scan_init sample_matrix))
                \<in> {[], [j0, t0]}))"
proof -
  have h1: "shape sample_matrix 2 2"
    by (simp add: shape_def sample_matrix_def)
  have "(1::nat) < 2 \<and> (0::nat) < 2 \<and> sample_matrix ! 1 ! 0 \<ge> 5"
    by (simp add: sample_matrix_def)
  then have h2: "\<exists>j < 2. \<exists>t < 2. sample_matrix ! j ! t \<ge> 5"
    by blast
  have ev: "firstMonomerCoords (scan 5 2 2 sample_matrix) = [1, 0]"
    by (simp add: scan_def scan_cell_def set_cell_def upt_rec RF_def sample_matrix_def)
  from first_crossing_time_major [OF h1 h2] h1 h2 ev show ?thesis
    by blast
qed

text \<open>
  Claim C2. The scan visits the cells in the order \<open>scan_order\<close>. When it reaches a cell
  \<open>(j, t)\<close>, that cell still holds its original value \<open>M ! j ! t\<close>, and the step of the
  scan is decided by that unnormalised value: the crossing is found from this step on
  exactly when it was found before or \<open>M ! j ! t \<ge> x1\<close>, the coordinates become \<open>[j, t]\<close>
  exactly when \<open>M ! j ! t \<ge> x1\<close> and no crossing was found before, and in every case the
  cell is replaced by \<open>M ! j ! t / RF\<close>. Hence the scan records the first cell of the
  original array that reaches \<open>x1\<close>, and when it ends every cell holds its original value
  divided by \<open>RF\<close>, once, whether or not the crossing had been found before.
\<close>

theorem normalised_once_after_comparison:
  assumes "shape M n T"
  shows "scan x1 n T M = scan_cells x1 (scan_order n T) (scan_init M) \<and>
         polymerData (scan x1 n T M) = map (map (\<lambda>x. x / RF)) M \<and>
         (\<forall>k < length (scan_order n T).
            polymerData (scan_cells x1 (take k (scan_order n T)) (scan_init M))
              ! fst (scan_order n T ! k) ! snd (scan_order n T ! k)
            = M ! fst (scan_order n T ! k) ! snd (scan_order n T ! k)) \<and>
         (\<forall>k < length (scan_order n T).
            scan_cells x1 (take (Suc k) (scan_order n T)) (scan_init M) =
              (scan_cells x1 (take k (scan_order n T)) (scan_init M))
                \<lparr>polymerData :=
                   set_cell (polymerData (scan_cells x1 (take k (scan_order n T)) (scan_init M)))
                     (fst (scan_order n T ! k)) (snd (scan_order n T ! k))
                     (M ! fst (scan_order n T ! k) ! snd (scan_order n T ! k) / RF),
                 firstMonomerFound :=
                   (firstMonomerFound (scan_cells x1 (take k (scan_order n T)) (scan_init M)) \<or>
                    M ! fst (scan_order n T ! k) ! snd (scan_order n T ! k) \<ge> x1),
                 firstMonomerCoords :=
                   (if M ! fst (scan_order n T ! k) ! snd (scan_order n T ! k) \<ge> x1 \<and>
                       \<not> firstMonomerFound (scan_cells x1 (take k (scan_order n T)) (scan_init M))
                    then [fst (scan_order n T ! k), snd (scan_order n T ! k)]
                    else firstMonomerCoords
                           (scan_cells x1 (take k (scan_order n T)) (scan_init M)))\<rparr>) \<and>
         firstMonomerCoords (scan x1 n T M) =
           (case List.find (\<lambda>c. M ! fst c ! snd c \<ge> x1) (scan_order n T) of
              None \<Rightarrow> [] | Some (j, t) \<Rightarrow> [j, t])"
proof -
  have steps: "\<forall>k < length (scan_order n T).
            scan_cells x1 (take (Suc k) (scan_order n T)) (scan_init M) =
              (scan_cells x1 (take k (scan_order n T)) (scan_init M))
                \<lparr>polymerData :=
                   set_cell (polymerData (scan_cells x1 (take k (scan_order n T)) (scan_init M)))
                     (fst (scan_order n T ! k)) (snd (scan_order n T ! k))
                     (M ! fst (scan_order n T ! k) ! snd (scan_order n T ! k) / RF),
                 firstMonomerFound :=
                   (firstMonomerFound (scan_cells x1 (take k (scan_order n T)) (scan_init M)) \<or>
                    M ! fst (scan_order n T ! k) ! snd (scan_order n T ! k) \<ge> x1),
                 firstMonomerCoords :=
                   (if M ! fst (scan_order n T ! k) ! snd (scan_order n T ! k) \<ge> x1 \<and>
                       \<not> firstMonomerFound (scan_cells x1 (take k (scan_order n T)) (scan_init M))
                    then [fst (scan_order n T ! k), snd (scan_order n T ! k)]
                    else firstMonomerCoords
                           (scan_cells x1 (take k (scan_order n T)) (scan_init M)))\<rparr>"
  proof (intro allI impI)
    fix k assume k: "k < length (scan_order n T)"
    let ?s = "scan_cells x1 (take k (scan_order n T)) (scan_init M)"
    let ?j = "fst (scan_order n T ! k)" and ?t = "snd (scan_order n T ! k)"
    have tk: "take (Suc k) (scan_order n T) = take k (scan_order n T) @ [(?j, ?t)]"
      using k by (simp add: take_Suc_conv_app_nth)
    have raw: "polymerData ?s ! ?j ! ?t = M ! ?j ! ?t"
      by (rule scan_reads_raw [OF assms k])
    show "scan_cells x1 (take (Suc k) (scan_order n T)) (scan_init M) =
        ?s\<lparr>polymerData := set_cell (polymerData ?s) ?j ?t (M ! ?j ! ?t / RF),
           firstMonomerFound := (firstMonomerFound ?s \<or> M ! ?j ! ?t \<ge> x1),
           firstMonomerCoords :=
             (if M ! ?j ! ?t \<ge> x1 \<and> \<not> firstMonomerFound ?s then [?j, ?t]
              else firstMonomerCoords ?s)\<rparr>"
      unfolding tk scan_cells_snoc
      by (cases "firstMonomerFound ?s") (simp_all add: scan_cell_def Let_def raw)
  qed
  have "crossing x1 M = (\<lambda>c. M ! fst c ! snd c \<ge> x1)"
    by (rule ext) (simp add: crossing_def)
  with scan_result(3) [OF assms, of x1]
  have fin: "firstMonomerCoords (scan x1 n T M) =
           (case List.find (\<lambda>c. M ! fst c ! snd c \<ge> x1) (scan_order n T) of
              None \<Rightarrow> [] | Some (j, t) \<Rightarrow> [j, t])"
    by simp
  from scan_normalises [OF assms] scan_reads_raw [OF assms] scan_flat steps fin
  show ?thesis by blast
qed

theorem normalised_once_after_comparison_witness:
  "shape sample_matrix 2 2 \<and>
   polymerData (scan 5 2 2 sample_matrix) = [[5 / 43, 25 / 43], [30 / 43, 35 / 43]] \<and>
   scan_order 2 2 ! 3 = (1, 1) \<and>
   polymerData (scan_cells 5 (take 3 (scan_order 2 2)) (scan_init sample_matrix)) ! 1 ! 1 = 7 \<and>
   firstMonomerCoords (scan 5 2 2 sample_matrix) = [1, 0]"
proof -
  have h1: "shape sample_matrix 2 2"
    by (simp add: shape_def sample_matrix_def)
  have n: "map (map (\<lambda>x. x / RF)) sample_matrix = [[5 / 43, 25 / 43], [30 / 43, 35 / 43]]"
    by (simp add: sample_matrix_def RF_def)
  have o: "scan_order 2 2 = [(0, 0), (1, 0), (0, 1), (1, 1)]"
    by (simp add: scan_order_def upt_rec)
  have k: "(3::nat) < length (scan_order 2 2)" "scan_order 2 2 ! 3 = (1, 1)"
    by (simp_all add: o)
  have v: "sample_matrix ! 1 ! 1 = 7"
    by (simp add: sample_matrix_def)
  have fd: "(case List.find (\<lambda>c. sample_matrix ! fst c ! snd c \<ge> 5) (scan_order 2 2) of
              None \<Rightarrow> [] | Some (j, t) \<Rightarrow> [j, t]) = [1, 0]"
    by (simp add: o sample_matrix_def)
  note th = normalised_once_after_comparison [OF h1, of 5]
  have a: "polymerData (scan 5 2 2 sample_matrix) = map (map (\<lambda>x. x / RF)) sample_matrix"
    by (rule th [THEN conjunct2, THEN conjunct1])
  have "polymerData (scan_cells 5 (take 3 (scan_order 2 2)) (scan_init sample_matrix))
              ! fst (scan_order 2 2 ! 3) ! snd (scan_order 2 2 ! 3)
            = sample_matrix ! fst (scan_order 2 2 ! 3) ! snd (scan_order 2 2 ! 3)"
    by (rule th [THEN conjunct2, THEN conjunct2, THEN conjunct1, rule_format, OF k(1)])
  then have b: "polymerData (scan_cells 5 (take 3 (scan_order 2 2)) (scan_init sample_matrix))
      ! 1 ! 1 = 7"
    unfolding k(2) fst_conv snd_conv v .
  have "firstMonomerCoords (scan 5 2 2 sample_matrix) =
           (case List.find (\<lambda>c. sample_matrix ! fst c ! snd c \<ge> 5) (scan_order 2 2) of
              None \<Rightarrow> [] | Some (j, t) \<Rightarrow> [j, t])"
    by (rule th [THEN conjunct2, THEN conjunct2, THEN conjunct2, THEN conjunct2])
  then have c: "firstMonomerCoords (scan 5 2 2 sample_matrix) = [1, 0]"
    by (simp only: fd)
  from h1 a n k(2) b c show ?thesis
    by (simp only: simp_thms)
qed

text \<open>
  Claim C5, as stated, fails: the timestep spacing is an unbounded integer read from the
  file, and line 154 multiplies a float by it. The file below is read into an array that
  has a crossing event at atom 1 and timestep 0 for \<open>x1 = 5\<close>, with
  \<open>dumpStep = 10 ^ 400\<close>; the product of line 154 raises OverflowError in the first
  iteration and no array is returned.
\<close>

theorem huge_dumpStep_overflows:
  "process_file env0 huge_file = Inr (Some (sample_matrix, huge_meta)) \<and>
   firstMonomerCoords (scan 5 2 2 sample_matrix) = [1, 0] \<and>
   preprocess env0 5 sample_matrix huge_meta = Inl OverflowError"
proof -
  have "firstMonomerCoords (scan 5 2 2 sample_matrix) = [1, 0]"
    by (simp add: scan_def scan_cell_def set_cell_def upt_rec RF_def sample_matrix_def)
  moreover have "preprocess env0 5 sample_matrix huge_meta = Inl OverflowError"
    by (simp add: preprocess_def huge_meta_def sample_matrix_def np_empty1_def py_trunc_def
          scan_def scan_cell_def set_cell_def upt_rec RF_def py_nth_def fill_step_def
          py_float_of_int_def float_limit_def env0_def)
  ultimately show ?thesis
    using huge_file_result by blast
qed

text \<open>
  Claim C5, amended. Let an array have a crossing event at atom \<open>j0\<close> and timestep \<open>t0\<close>,
  and let \<open>dumpStep\<close> and the number of timesteps be within the range of a float (in
  absolute value below \<open>2 ^ 1024 - 2 ^ 970\<close>). Then the pre-processing returns three
  distance arrays and one time array, each of length \<open>floor(numDumps)\<close>: at every index
  \<open>t\<close> the first holds the normalised row 0, the second the normalised row
  \<open>numAtoms - 1\<close>, the third the normalised row \<open>j0\<close>, and the time array holds
  \<open>(t - t0) * TIMESTEP * dumpStep\<close>.
\<close>

theorem derived_series:
  assumes "shape M (nat (numAtoms m)) (nat \<lfloor>numDumps m\<rfloor>)" and "0 \<le> numDumps m"
    and "\<exists>j < nat (numAtoms m). \<exists>t < nat \<lfloor>numDumps m\<rfloor>. M ! j ! t \<ge> x1"
    and "\<bar>dumpStep m\<bar> < float_limit" and "\<lfloor>numDumps m\<rfloor> \<le> float_limit"
  shows "\<exists>r j0 t0. preprocess env x1 M m = Inr r \<and>
     firstMonomerCoords (scan x1 (nat (numAtoms m)) (nat \<lfloor>numDumps m\<rfloor>) M) = [j0, t0] \<and>
     firstMonomerIndex r = j0 \<and> firstMonomerTime r = t0 \<and>
     normData r = map (map (\<lambda>x. x / RF)) M \<and>
     length (distArray r) = 3 \<and> length (timeArray r) = 1 \<and>
     (\<forall>a \<in> set (distArray r @ timeArray r). length a = nat \<lfloor>numDumps m\<rfloor>) \<and>
     (\<forall>t < nat \<lfloor>numDumps m\<rfloor>.
        distArray r ! 0 ! t = normData r ! 0 ! t \<and>
        distArray r ! 1 ! t = normData r ! (nat (numAtoms m) - 1) ! t \<and>
        distArray r ! 2 ! t = normData r ! j0 ! t \<and>
        timeArray r ! 0 ! t = (real t - real t0) * TIMESTEP * real_of_int (dumpStep m))"
proof -
  have T: "py_trunc (numDumps m) = \<lfloor>numDumps m\<rfloor>"
    using assms(2) by (simp add: py_trunc_def)
  have sh: "shape M (nat (numAtoms m)) (nat (py_trunc (numDumps m)))"
    using assms(1) by (simp add: T)
  from assms(3) obtain j t where
    "j < nat (numAtoms m)" "t < nat (py_trunc (numDumps m))" "M ! j ! t \<ge> x1"
    unfolding T by blast
  from scan_first_crossing [OF sh this] obtain j0 t0 where
    co: "firstMonomerCoords (scan x1 (nat (numAtoms m)) (nat (py_trunc (numDumps m))) M) = [j0, t0]"
    and t0: "t0 < nat (py_trunc (numDumps m))"
    by blast
  have lim: "py_trunc (numDumps m) \<le> float_limit"
    using assms(5) by (simp add: T)
  from preprocess_crossing [OF sh assms(2) co t0 lim assms(4), of env] obtain r where
    r: "preprocess env x1 M m = Inr r"
      "normData r = map (map (\<lambda>x. x / RF)) M"
      "firstMonomerIndex r = j0" "firstMonomerTime r = t0"
      "shape (distArray r) 3 (nat (py_trunc (numDumps m)))"
      "shape (timeArray r) 1 (nat (py_trunc (numDumps m)))"
      "\<forall>t < nat (py_trunc (numDumps m)).
        distArray r ! 0 ! t = normData r ! 0 ! t \<and>
        distArray r ! 1 ! t = normData r ! nat (numAtoms m - 1) ! t \<and>
        distArray r ! 2 ! t = normData r ! j0 ! t \<and>
        timeArray r ! 0 ! t = real_of_int (int t - int t0) * TIMESTEP * real_of_int (dumpStep m)"
    by blast
  have idx: "nat (numAtoms m - 1) = nat (numAtoms m) - 1"
    by (simp add: nat_diff_distrib')
  have len: "length (distArray r) = 3" "length (timeArray r) = 1"
    "\<forall>a \<in> set (distArray r @ timeArray r). length a = nat \<lfloor>numDumps m\<rfloor>"
    using r(5,6) by (auto simp: shape_def T)
  have vals: "\<forall>t < nat \<lfloor>numDumps m\<rfloor>.
        distArray r ! 0 ! t = normData r ! 0 ! t \<and>
        distArray r ! 1 ! t = normData r ! (nat (numAtoms m) - 1) ! t \<and>
        distArray r ! 2 ! t = normData r ! j0 ! t \<and>
        timeArray r ! 0 ! t = (real t - real t0) * TIMESTEP * real_of_int (dumpStep m)"
    using r(7) by (simp add: T idx)
  from r(1-4) co len vals show ?thesis
    unfolding T by blast
qed

theorem derived_series_witness:
  "shape sample_matrix (nat (numAtoms sample_meta)) (nat \<lfloor>numDumps sample_meta\<rfloor>) \<and>
   0 \<le> numDumps sample_meta \<and>
   (\<exists>j < nat (numAtoms sample_meta). \<exists>t < nat \<lfloor>numDumps sample_meta\<rfloor>. sample_matrix ! j ! t \<ge> 5) \<and>
   \<bar>dumpStep sample_meta\<bar> < float_limit \<and> \<lfloor>numDumps sample_meta\<rfloor> \<le> float_limit \<and>
   preprocess env0 5 sample_matrix sample_meta =
     Inr \<lparr>normData = [[5 / 43, 25 / 43], [30 / 43, 35 / 43]], firstMonomerIndex = 1,
          firstMonomerTime = 0,
          distArray = [[5 / 43, 25 / 43], [30 / 43, 35 / 43], [30 / 43, 35 / 43]],
          timeArray = [[0, 1 / 200]]\<rparr> \<and>
   (\<exists>r j0 t0. preprocess env0 5 sample_matrix sample_meta = Inr r \<and>
     firstMonomerIndex r = j0 \<and> firstMonomerTime r = t0 \<and>
     length (distArray r) = 3 \<and> length (timeArray r) = 1 \<and>
     (\<forall>a \<in> set (distArray r @ timeArray r). length a = nat \<lfloor>numDumps sample_meta\<rfloor>) \<and>
     (\<forall>t < nat \<lfloor>numDumps sample_meta\<rfloor>.
        distArray r ! 0 ! t = normData r ! 0 ! t \<and>
        distArray r ! 1 ! t = normData r ! (nat (numAtoms sample_meta) - 1) ! t \<and>
        distArray r ! 2 ! t = normData r ! j0 ! t \<and>
        timeArray r ! 0 ! t =
          (real t - real t0) * TIMESTEP * real_of_int (dumpStep sample_meta)))"
proof -
  have fl: "\<lfloor>numDumps sample_meta\<rfloor> = 2"
    by (simp add: sample_meta_def)
  have h1: "shape sample_matrix (nat (numAtoms sample_meta)) (nat \<lfloor>numDumps sample_meta\<rfloor>)"
    unfolding fl by (simp add: shape_def sample_matrix_def sample_meta_def)
  have h2: "0 \<le> numDumps sample_meta"
    by (simp add: sample_meta_def)
  have "(1::nat) < nat (numAtoms sample_meta) \<and> (0::nat) < nat \<lfloor>numDumps sample_meta\<rfloor> \<and>
        sample_matrix ! 1 ! 0 \<ge> 5"
    unfolding fl by (simp add: sample_matrix_def sample_meta_def)
  then have h3: "\<exists>j < nat (numAtoms sample_meta). \<exists>t < nat \<lfloor>numDumps sample_meta\<rfloor>.
        sample_matrix ! j ! t \<ge> 5"
    by blast
  have h4: "\<bar>dumpStep sample_meta\<bar> < float_limit"
    by (simp add: sample_meta_def float_limit_def)
  have h5: "\<lfloor>numDumps sample_meta\<rfloor> \<le> float_limit"
    unfolding fl by (simp add: float_limit_def)
  have ev: "preprocess env0 5 sample_matrix sample_meta =
     Inr \<lparr>normData = [[5 / 43, 25 / 43], [30 / 43, 35 / 43]], firstMonomerIndex = 1,
          firstMonomerTime = 0,
          distArray = [[5 / 43, 25 / 43], [30 / 43, 35 / 43], [30 / 43, 35 / 43]],
          timeArray = [[0, 1 / 200]]\<rparr>"
    by (simp add: preprocess_def sample_meta_def sample_matrix_def np_empty1_def py_trunc_def
          scan_def scan_cell_def set_cell_def upt_rec RF_def py_nth_def fill_step_def
          py_float_of_int_def float_limit_def TIMESTEP_def env0_def)
  from derived_series [OF h1 h2 h3 h4 h5, of env0] h1 h2 h3 h4 h5 ev show ?thesis
    by blast
qed

text \<open>
  Claim C7. For an array in which no cell reaches \<open>x1\<close>, the scan leaves the list of
  coordinates empty: it holds no index at all, in particular not atom 0 and timestep 0.
  The pre-processing then stops with an IndexError when it reads the first coordinate,
  and returns no series for that array.
\<close>

theorem no_crossing_no_series:
  assumes "shape M (nat (numAtoms m)) (nat \<lfloor>numDumps m\<rfloor>)" and "0 \<le> numDumps m"
    and "\<forall>j < nat (numAtoms m). \<forall>t < nat \<lfloor>numDumps m\<rfloor>. M ! j ! t < x1"
  shows "firstMonomerCoords (scan x1 (nat (numAtoms m)) (nat \<lfloor>numDumps m\<rfloor>) M) = [] \<and>
         preprocess env x1 M m = Inl IndexError"
proof -
  have T: "py_trunc (numDumps m) = \<lfloor>numDumps m\<rfloor>"
    using assms(2) by (simp add: py_trunc_def)
  have sh: "shape M (nat (numAtoms m)) (nat (py_trunc (numDumps m)))"
    using assms(1) by (simp add: T)
  have no: "\<forall>j < nat (numAtoms m). \<forall>t < nat (py_trunc (numDumps m)). M ! j ! t < x1"
    using assms(3) by (simp add: T)
  from scan_no_crossing [OF sh no] preprocess_no_crossing [OF sh assms(2) no, of env]
  show ?thesis by (simp add: T)
qed

theorem no_crossing_no_series_witness:
  "shape sample_matrix (nat (numAtoms sample_meta)) (nat \<lfloor>numDumps sample_meta\<rfloor>) \<and>
   0 \<le> numDumps sample_meta \<and>
   firstMonomerCoords
     (scan 8 (nat (numAtoms sample_meta)) (nat \<lfloor>numDumps sample_meta\<rfloor>) sample_matrix) = [] \<and>
   preprocess env0 8 sample_matrix sample_meta = Inl IndexError"
proof -
  have fl: "\<lfloor>numDumps sample_meta\<rfloor> = 2"
    by (simp add: sample_meta_def)
  have h1: "shape sample_matrix (nat (numAtoms sample_meta)) (nat \<lfloor>numDumps sample_meta\<rfloor>)"
    unfolding fl by (simp add: shape_def sample_matrix_def sample_meta_def)
  have h2: "0 \<le> numDumps sample_meta"
    by (simp add: sample_meta_def)
  have h3: "\<forall>j < nat (numAtoms sample_meta). \<forall>t < nat \<lfloor>numDumps sample_meta\<rfloor>.
      sample_matrix ! j ! t < 8"
    unfolding fl by (simp add: sample_matrix_def sample_meta_def less_Suc_eq numeral_2_eq_2)
  from no_crossing_no_series [OF h1 h2 h3, of env0] h1 h2 show ?thesis
    by blast
qed

section \<open>Reading the dump files\<close>

text \<open>
  Claim C3. When the first chunk of a file names \<open>n\<close> distinct atoms, the dictionary
  built from it has exactly those identifiers as keys and maps them one-to-one onto the
  indices 0 to \<open>n - 1\<close>; a smaller identifier gets a smaller index, so the smallest
  identifier is at index 0 and the largest at index \<open>n - 1\<close>.
\<close>

theorem idToIndex_bijection:
  assumes "read_atomList env lines [0..<n] [] = Inr ids" and "distinct ids"
  shows "length ids = n \<and>
     dom (build_idToIndex (sort ids) n) = set ids \<and>
     bij_betw (\<lambda>a. the (build_idToIndex (sort ids) n a)) (set ids) {0..<n} \<and>
     (\<forall>a \<in> set ids. \<forall>b \<in> set ids.
        (a < b) = (the (build_idToIndex (sort ids) n a) < the (build_idToIndex (sort ids) n b))) \<and>
     (0 < n \<longrightarrow> build_idToIndex (sort ids) n (Min (set ids)) = Some 0 \<and>
                build_idToIndex (sort ids) n (Max (set ids)) = Some (n - 1))"
proof -
  have l: "length ids = n" using assms(1) by (rule read_atomList_length)
  from idToIndex_sorted [OF assms(2)] l show ?thesis
    by auto
qed

theorem idToIndex_bijection_witness:
  "read_atomList env0 sample_file [0..<2] [] = Inr [30, 10] \<and> distinct [30, 10 :: int] \<and>
   dom (build_idToIndex (sort [30, 10]) 2) = {10, 30} \<and>
   bij_betw (\<lambda>a. the (build_idToIndex (sort [30, 10]) 2 a)) {10, 30} {0..<2} \<and>
   build_idToIndex (sort [30, 10]) 2 10 = Some 0 \<and>
   build_idToIndex (sort [30, 10]) 2 30 = Some 1"
proof -
  have d: "distinct [30, 10 :: int]" by simp
  have s: "set [30, 10 :: int] = {10, 30}" by auto
  have mm: "Min {10, 30 :: int} = 10" "Max {10, 30 :: int} = 30" by simp_all
  from idToIndex_bijection [OF sample_file_ids d] sample_file_ids d show ?thesis
    unfolding s mm by simp
qed

text \<open>
  Claim C4. Let each of the \<open>T\<close> recorded chunks of a file of \<open>n\<close> atoms hold exactly one
  atom line for every identifier of the first chunk. Then the assignments of lines
  103-109 have pairwise different target cells and their targets are all the cells of
  the \<open>n\<close> by \<open>T\<close> array: every cell is written once. A second file whose chunks hold the
  same atom lines in any other order is assembled into the same array, whatever the two
  arrays held before.
\<close>

theorem each_cell_written_once:
  assumes T: "0 < T"
    and c: "\<forall>i < T. chunk_atoms env lines n i = map Inr (ps i)"
    and one: "\<forall>i < T. \<forall>a \<in> fst ` set (ps 0). count_list (map fst (ps i)) a = 1"
    and c': "\<forall>i < T. chunk_atoms env lines' n i = map Inr (ps' i)"
    and perm: "\<forall>i < T. mset (ps' i) = mset (ps i)"
    and sh: "shape M0 n T" "shape M0' n T"
  shows "\<exists>ws M. assemble_writes env lines n T = Inr ws \<and>
           distinct (map fst ws) \<and> set (map fst ws) = {0..<n} \<times> {0..<T} \<and>
           assemble env lines n T M0 = Inr M \<and> M = apply_writes ws M0 \<and> shape M n T \<and>
           assemble env lines' n T M0' = Inr M"
proof -
  let ?ids = "map fst (ps 0)"
  let ?ids' = "map fst (ps' 0)"
  let ?W = "file_writes n T ps"
  let ?W' = "file_writes n T ps'"
  have len: "\<And>i. i < T \<Longrightarrow> length (ps i) = n"
    using c chunk_atoms_length by blast
  have one0: "\<forall>a \<in> set ?ids. count_list ?ids a = 1"
    using one T by simp
  have d: "distinct ?ids"
    by (rule count_one_mset(1) [OF one0 one0 refl])
  have ms: "\<forall>i < T. mset (map fst (ps i)) = mset ?ids"
  proof (intro allI impI)
    fix i assume i: "i < T"
    have "\<forall>a \<in> set ?ids. count_list (map fst (ps i)) a = 1"
      using one i by simp
    moreover have "length (map fst (ps i)) = length ?ids"
      using len [OF i] len [OF T] by simp
    ultimately show "mset (map fst (ps i)) = mset ?ids"
      using count_one_mset(2) [OF one0] by blast
  qed
  have ms': "\<forall>i < T. mset (map fst (ps' i)) = mset ?ids"
  proof (intro allI impI)
    fix i assume i: "i < T"
    with perm have "mset (ps' i) = mset (ps i)" by blast
    then have "mset (map fst (ps' i)) = mset (map fst (ps i))"
      by (simp only: mset_map)
    also from ms i have "\<dots> = mset ?ids" by blast
    finally show "mset (map fst (ps' i)) = mset ?ids" .
  qed
  have ids': "mset ?ids' = mset ?ids" using ms' T by blast
  have d': "distinct ?ids'"
    using mset_eq_imp_distinct_iff [OF ids'] d by blast
  have srt: "sort ?ids' = sort ?ids"
  proof (rule properties_for_sort)
    show "mset (sort ?ids) = mset ?ids'" by (simp only: mset_sort ids')
    show "sorted (sort ?ids)" by simp
  qed
  have sub: "\<forall>i < T. fst ` set (ps i) \<subseteq> fst ` set (ps 0)"
  proof (intro allI impI)
    fix i assume "i < T"
    with ms have "mset (map fst (ps i)) = mset ?ids" by blast
    from mset_eq_setD [OF this] show "fst ` set (ps i) \<subseteq> fst ` set (ps 0)" by simp
  qed
  have sub': "\<forall>i < T. fst ` set (ps' i) \<subseteq> fst ` set (ps' 0)"
  proof (intro allI impI)
    fix i assume "i < T"
    with ms' have "mset (map fst (ps' i)) = mset ?ids" by blast
    then have "mset (map fst (ps' i)) = mset ?ids'" by (simp only: ids')
    from mset_eq_setD [OF this] show "fst ` set (ps' i) \<subseteq> fst ` set (ps' 0)" by simp
  qed
  have aw: "assemble_writes env lines n T = Inr ?W"
    using assemble_writes_parsed [OF T c] sub by (simp add: file_writes_def)
  have aw': "assemble_writes env lines' n T = Inr ?W'"
    using assemble_writes_parsed [OF T c'] sub' by (simp add: file_writes_def)
  from file_targets [OF d len [OF T] ms]
  have tg: "distinct (map fst ?W)" "set (map fst ?W) = {0..<n} \<times> {0..<T}" by blast+
  have len': "length (ps' 0) = n"
    using c' T chunk_atoms_length by blast
  have ms'': "\<forall>i < T. mset (map fst (ps' i)) = mset ?ids'"
    using ms' by (simp only: ids')
  from file_targets [OF d' len' ms'']
  have tg': "distinct (map fst ?W')" by blast
  have sets: "set ?W' = set ?W"
  proof -
    have "\<And>i. i < T \<Longrightarrow> set (ps' i) = set (ps i)"
      using perm mset_eq_setD by blast
    then show ?thesis
      unfolding set_file_writes srt by (simp add: chunk_writes_def)
  qed
  have a: "assemble env lines n T M0 = Inr (apply_writes ?W M0)"
    by (simp add: assemble_by_writes aw)
  have "assemble env lines' n T M0' = Inr (apply_writes ?W' M0')"
    by (simp add: assemble_by_writes aw')
  also have "apply_writes ?W' M0' = apply_writes ?W M0"
    by (rule apply_writes_cover [OF sh tg(1) tg' tg(2) sets])
  finally have a': "assemble env lines' n T M0' = Inr (apply_writes ?W M0)" .
  from aw tg a a' shape_apply_writes [OF sh(1)] show ?thesis by blast
qed

theorem each_cell_written_once_witness:
  "assemble_writes env0 sample_file 2 2 =
     Inr [((1, 0), 1), ((0, 0), 2), ((0, 1), 6), ((1, 1), 3)] \<and>
   assemble env0 sample_file 2 2 [[0, 0], [0, 0]] = Inr [[2, 6], [1, 3]] \<and>
   assemble env0 sample_permuted 2 2 [[9, 9], [9, 9]] = Inr [[2, 6], [1, 3]]"
proof -
  have T: "(0::nat) < 2" by simp
  have one: "\<forall>i < 2. \<forall>a \<in> fst ` set (sample_atoms 0). count_list (map fst (sample_atoms i)) a = 1"
    by (rule all_less_2) (simp_all add: sample_atoms_def)
  have perm: "\<forall>i < 2. mset (permuted_atoms i) = mset (sample_atoms i)"
    by (rule all_less_2) (simp_all add: sample_atoms_def permuted_atoms_def)
  have sh: "shape [[0, 0], [0, 0]] 2 2" "shape [[9, 9], [9, 9]] 2 2"
    by (simp_all add: shape_def)
  have ws: "assemble_writes env0 sample_file 2 2 =
     Inr [((1, 0), 1), ((0, 0), 2), ((0, 1), 6), ((1, 1), 3)]"
    by (simp add: assemble_writes_def sample_file_def sample_eval)
  have ap: "apply_writes [((1, 0), 1), ((0, 0), 2), ((0, 1), 6), ((1, 1), 3)] [[0, 0], [0, 0]]
      = [[2, 6], [1, 3]]"
    by (simp add: apply_writes_def set_cell_def)
  from each_cell_written_once [OF T sample_file_chunks one sample_permuted_chunks perm sh]
  obtain w M where w: "assemble_writes env0 sample_file 2 2 = Inr w"
    and M: "assemble env0 sample_file 2 2 [[0, 0], [0, 0]] = Inr M"
      "M = apply_writes w [[0, 0], [0, 0]]"
      "assemble env0 sample_permuted 2 2 [[9, 9], [9, 9]] = Inr M"
    by blast
  from w ws have "w = [((1, 0), 1), ((0, 0), 2), ((0, 1), 6), ((1, 1), 3)]" by simp
  with M(2) ap have "M = [[2, 6], [1, 3]]" by simp
  with M(1,3) ws show ?thesis by simp
qed

text \<open>
  Claim C6, as stated, fails: a file of four lines that announces one atom has at least
  4 lines, and it is skipped; no timestep spacing is read and nothing is recorded.
\<close>

theorem short_file_not_decoded:
  "4 \<le> length sample_short \<and> process_file env0 sample_short = Inr None"
proof -
  have "process_file env0 sample_short = Inr None"
    by (rule process_file_one_chunk [of _ _ 1]) (simp_all add: sample_header sample_lengths)
  then show ?thesis by (simp add: sample_lengths)
qed

text \<open>
  Claim C6, amended. Let line 3 of a file, without its last character, parse to the
  integer \<open>n \<ge> 0\<close>, let the file have at least \<open>dumpLength + 2\<close> lines for
  \<open>dumpLength = n + 9\<close>, let line \<open>dumpLength + 1\<close> parse to \<open>dS\<close>, and let the atom lines
  of the first \<open>floor(totalLines / dumpLength)\<close> chunks parse and carry identifiers of the
  first chunk. Then the file is read without error: the dictionary holds \<open>numAtoms = n\<close>,
  \<open>numDumps = totalLines / dumpLength\<close> and \<open>dumpStep = dS\<close>, the array has \<open>n\<close> rows and
  \<open>floor(totalLines / dumpLength)\<close> columns, and it holds the assignments of exactly
  those chunks. No hypothesis asks \<open>totalLines\<close> to be a multiple of \<open>dumpLength\<close>, and
  the lines after the last complete chunk are ignored: apart from line
  \<open>dumpLength + 1\<close>, replacing them by any other lines gives the same result.
\<close>

theorem decode_header_and_chunks:
  assumes "py_int env (butlast (lines ! 3)) = Some (int n)"
    and "n + 9 + 2 \<le> length lines"
    and "py_int env (butlast (lines ! (n + 9 + 1))) = Some dS"
    and "\<forall>i < length lines div (n + 9). chunk_atoms env lines n i = map Inr (ps i)"
    and "\<forall>i < length lines div (n + 9). fst ` set (ps i) \<subseteq> fst ` set (ps 0)"
  shows "\<exists>M. process_file env lines =
           Inr (Some (M, \<lparr>numAtoms = int n, numDumps = real (length lines) / real (n + 9),
                          dumpStep = dS\<rparr>)) \<and>
         shape M n (length lines div (n + 9)) \<and>
         nat (py_trunc (real (length lines) / real (n + 9))) = length lines div (n + 9) \<and>
         assemble_writes env lines n (length lines div (n + 9))
           = Inr (file_writes n (length lines div (n + 9)) ps) \<and>
         M = apply_writes (file_writes n (length lines div (n + 9)) ps)
               (garbage_matrix env n (length lines div (n + 9))) \<and>
         (\<forall>lines'. length lines' = length lines \<and>
             take (length lines div (n + 9) * (n + 9)) lines'
               = take (length lines div (n + 9) * (n + 9)) lines \<and>
             lines' ! (n + 9 + 1) = lines ! (n + 9 + 1) \<longrightarrow>
             process_file env lines' = process_file env lines)"
proof -
  let ?T = "length lines div (n + 9)"
  let ?M = "apply_writes (file_writes n ?T ps) (garbage_matrix env n ?T)"
  let ?m = "\<lparr>numAtoms = int n, numDumps = real (length lines) / real (n + 9), dumpStep = dS\<rparr>"
  have "n + 9 \<le> length lines" using assms(2) by simp
  then have "(n + 9) div (n + 9) \<le> ?T" by (rule div_le_mono)
  then have T: "0 < ?T" by simp
  have pf: "process_file env lines = Inr (Some (?M, ?m))"
    using process_file_parsed [OF assms(1-4)] assms(5) by simp
  have sh: "shape ?M n ?T"
    by (rule shape_apply_writes [OF shape_garbage])
  have tr: "nat (py_trunc (real (length lines) / real (n + 9))) = ?T"
    using trunc_div [of "length lines" "n + 9"] by simp
  have aw: "assemble_writes env lines n ?T = Inr (file_writes n ?T ps)"
    using assemble_writes_parsed [OF T assms(4)] assms(5) by (simp add: file_writes_def)
  have ign: "\<forall>lines'. length lines' = length lines \<and>
             take (?T * (n + 9)) lines' = take (?T * (n + 9)) lines \<and>
             lines' ! (n + 9 + 1) = lines ! (n + 9 + 1) \<longrightarrow>
             process_file env lines' = process_file env lines"
  proof (intro allI impI, elim conjE)
    fix lines' :: "string list"
    assume l: "length lines' = length lines"
      and t: "take (?T * (n + 9)) lines' = take (?T * (n + 9)) lines"
      and s: "lines' ! (n + 9 + 1) = lines ! (n + 9 + 1)"
    have le: "?T * (n + 9) \<le> length lines" by simp
    have "n + 9 \<le> ?T * (n + 9)" using T by simp
    then have 3: "3 < ?T * (n + 9)" by linarith
    have "lines' ! 3 = take (?T * (n + 9)) lines' ! 3" using 3 by simp
    also have "\<dots> = lines ! 3" using 3 t by simp
    finally have l3: "lines' ! 3 = lines ! 3" .
    have c': "\<forall>i < length lines' div (n + 9). chunk_atoms env lines' n i = map Inr (ps i)"
      using assms(4) chunk_atoms_prefix [OF _ le _ t, of _ env] l by simp
    have "process_file env lines' = Inr (Some (?M, ?m))"
      using process_file_parsed [of env lines' n dS ps] assms(1-3,5) c' l l3 s
      by simp
    with pf show "process_file env lines' = process_file env lines" by simp
  qed
  from pf sh tr aw ign show ?thesis by blast
qed

theorem decode_header_and_chunks_witness:
  "py_int env0 (butlast (sample_truncated ! 3)) = Some (int 2) \<and>
   2 + 9 + 2 \<le> length sample_truncated \<and>
   py_int env0 (butlast (sample_truncated ! (2 + 9 + 1))) = Some 100 \<and>
   length sample_truncated = 25 \<and> length sample_truncated div (2 + 9) = 2 \<and>
   process_file env0 sample_truncated =
     Inr (Some ([[2, 6], [1, 3]], \<lparr>numAtoms = 2, numDumps = 25 / 11, dumpStep = 100\<rparr>)) \<and>
   shape [[2, 6], [1, 3]] 2 2"
proof -
  have T: "length sample_truncated div (2 + 9) = 2"
    by (simp add: sample_lengths)
  have h2: "2 + 9 + 2 \<le> length sample_truncated"
    by (simp add: sample_lengths)
  have h4: "\<forall>i < length sample_truncated div (2 + 9).
      chunk_atoms env0 sample_truncated 2 i = map Inr (sample_atoms i)"
    unfolding T by (rule sample_truncated_chunks)
  have h5: "\<forall>i < length sample_truncated div (2 + 9).
      fst ` set (sample_atoms i) \<subseteq> fst ` set (sample_atoms 0)"
    unfolding T by (rule all_less_2) (simp_all add: sample_atoms_def)
  from decode_header_and_chunks [OF sample_header(3) h2 sample_header(4) h4 h5]
  obtain M where "process_file env0 sample_truncated =
           Inr (Some (M, \<lparr>numAtoms = int 2,
                          numDumps = real (length sample_truncated) / real (2 + 9),
                          dumpStep = 100\<rparr>))"
      and "shape M 2 (length sample_truncated div (2 + 9))"
    by blast
  with sample_truncated_result have "shape [[2, 6], [1, 3]] 2 2"
    by (simp add: T)
  with sample_truncated_result sample_header(3,4) h2 T show ?thesis
    by (simp add: sample_lengths)
qed

text \<open>
  Claim C8. A file of fewer than 4 lines, and a file whose line 3 parses to \<open>numAtoms\<close>
  and that has fewer than \<open>numAtoms + 9 + 2\<close> lines, are skipped: reading the file returns
  without an exception and without an array, and the loop goes on with the remaining
  files from a state whose \<open>polymerList\<close> and \<open>polymerMeta\<close> are unchanged.
\<close>

theorem short_file_skipped:
  assumes "length lines < 4 \<or>
     (py_int env (butlast (lines ! 3)) = Some k \<and> int (length lines) < k + 9 + 2)"
  shows "process_file env lines = Inr None \<and>
     process_batch env ((dumpFile, lines) # fileList) st =
       process_batch env fileList (assign_file dumpFile (py_open dumpFile st)) \<and>
     polymerList (assign_file dumpFile (py_open dumpFile st)) = polymerList st \<and>
     polymerMeta (assign_file dumpFile (py_open dumpFile st)) = polymerMeta st"
proof -
  have "process_file env lines = Inr None"
  proof (cases "length lines < 4")
    case True
    then show ?thesis by (rule process_file_short)
  next
    case False
    with assms show ?thesis
      by (intro process_file_one_chunk [of lines env k]) simp_all
  qed
  then show ?thesis by (simp add: Let_def assign_file_def py_open_def)
qed

theorem short_file_skipped_witness:
  "py_int env0 (butlast (sample_short ! 3)) = Some 1 \<and> int (length sample_short) < 1 + 9 + 2 \<and>
   process_file env0 sample_short = Inr None \<and>
   process_batch env0 [(''a'', sample_short)] init_state =
     Inr \<lparr>polymerList = [], polymerMeta = [], openFiles = [''a''], fileVar = Some ''a''\<rparr>"
proof -
  have h: "py_int env0 (butlast (sample_short ! 3)) = Some 1 \<and>
      int (length sample_short) < 1 + 9 + 2"
    by (simp add: sample_header sample_lengths)
  then have "length sample_short < 4 \<or>
     (py_int env0 (butlast (sample_short ! 3)) = Some 1 \<and> int (length sample_short) < 1 + 9 + 2)"
    by blast
  from short_file_skipped [OF this, of "''a''" "[]" init_state] h show ?thesis
    by (simp add: init_state_def assign_file_def py_open_def)
qed

text \<open>
  Claim C9 does not hold of the code: \<^verbatim>\<open>file.close()\<close> is only reached at the end of
  the loop body, and both \<^verbatim>\<open>continue\<close> statements leave it out. The file object of a
  skipped file is closed only when the name \<^verbatim>\<open>file\<close> is bound again, which happens
  after the next file has been opened; when the skipped file is the last one of the
  batch, nothing closes it. Below, \<open>b\<close> is a complete file and \<open>a\<close> a short one. After the
  batch \<open>b, a\<close> the file \<open>a\<close> is open, and so it is during the pre-processing and the
  plotting. In the batch \<open>a, b\<close> both files are open after line 75 has called
  \<^verbatim>\<open>open\<close> for \<open>b\<close>, and none is open at the end.
\<close>

theorem skipped_file_left_open:
  "process_batch env0 [(''b'', sample_file), (''a'', sample_short)] init_state =
     Inr \<lparr>polymerList = [[[2, 6], [1, 3]]],
          polymerMeta = [\<lparr>numAtoms = 2, numDumps = 2, dumpStep = 100\<rparr>],
          openFiles = [''a''], fileVar = Some ''a''\<rparr> \<and>
   process_batch env0 [(''a'', sample_short)] init_state =
     Inr \<lparr>polymerList = [], polymerMeta = [], openFiles = [''a''], fileVar = Some ''a''\<rparr> \<and>
   openFiles (py_open ''b''
     \<lparr>polymerList = [], polymerMeta = [], openFiles = [''a''], fileVar = Some ''a''\<rparr>)
     = [''b'', ''a''] \<and>
   process_batch env0 [(''a'', sample_short), (''b'', sample_file)] init_state =
     Inr \<lparr>polymerList = [[[2, 6], [1, 3]]],
          polymerMeta = [\<lparr>numAtoms = 2, numDumps = 2, dumpStep = 100\<rparr>],
          openFiles = [], fileVar = Some ''b''\<rparr>"
proof -
  have "process_file env0 sample_short = Inr None"
    by (rule process_file_one_chunk [of _ _ 1]) (simp_all add: sample_header sample_lengths)
  then show ?thesis
    by (simp add: sample_file_result init_state_def Let_def assign_file_def py_open_def
          py_close_def)
qed

text \<open>
  Claim C10, as stated, fails: a first chunk that names the same atom twice does not make
  the lookup fail. The file below names atom 1 twice in each chunk; it is read without
  error, row 0 of the array is never written, and row 1 is written twice per column.
\<close>

theorem duplicate_identifiers_no_error:
  "read_atomList env0 sample_duplicate [0..<2] [] = Inr [1, 1] \<and> \<not> distinct [1 :: int, 1] \<and>
   process_file env0 sample_duplicate =
     Inr (Some ([[0, 0], [6, 8]], \<lparr>numAtoms = 2, numDumps = 2, dumpStep = 100\<rparr>))"
  by (simp add: sample_duplicate_ids sample_duplicate_result)

text \<open>
  Claim C10, amended. For a file whose header is read and whose atom lines in the
  recorded chunks parse, the assembly returns an array exactly when every atom line of
  every recorded chunk carries an identifier that occurs in the first chunk; when some
  atom line carries an identifier absent from the first chunk, reading the file raises
  KeyError at the lookup and nothing is stored for that file.
\<close>

theorem unknown_identifier_raises:
  assumes "py_int env (butlast (lines ! 3)) = Some (int n)"
    and "n + 9 + 2 \<le> length lines"
    and "py_int env (butlast (lines ! (n + 9 + 1))) = Some dS"
    and "\<forall>i < length lines div (n + 9). chunk_atoms env lines n i = map Inr (ps i)"
  shows "(process_file env lines = Inl KeyError) =
           (\<exists>i < length lines div (n + 9). \<exists>p \<in> set (ps i). fst p \<notin> fst ` set (ps 0)) \<and>
         ((\<exists>M m. process_file env lines = Inr (Some (M, m))) =
           (\<forall>i < length lines div (n + 9). \<forall>p \<in> set (ps i). fst p \<in> fst ` set (ps 0)))"
proof (cases "\<forall>i < length lines div (n + 9). fst ` set (ps i) \<subseteq> fst ` set (ps 0)")
  case True
  with process_file_parsed [OF assms] have
    "\<exists>M m. process_file env lines = Inr (Some (M, m))" by simp
  moreover from True have
    "\<forall>i < length lines div (n + 9). \<forall>p \<in> set (ps i). fst p \<in> fst ` set (ps 0)"
    by blast
  ultimately show ?thesis by auto
next
  case False
  with process_file_parsed [OF assms] have "process_file env lines = Inl KeyError" by simp
  moreover from False have
    "\<exists>i < length lines div (n + 9). \<exists>p \<in> set (ps i). fst p \<notin> fst ` set (ps 0)"
    by blast
  ultimately show ?thesis by auto
qed

theorem unknown_identifier_raises_witness:
  "py_int env0 (butlast (sample_unknown ! 3)) = Some (int 2) \<and>
   2 + 9 + 2 \<le> length sample_unknown \<and>
   py_int env0 (butlast (sample_unknown ! (2 + 9 + 1))) = Some 100 \<and>
   chunk_atoms env0 sample_unknown 2 1 = map Inr [(10, 6), (99, 3)] \<and>
   (99 :: int) \<notin> fst ` set (unknown_atoms 0) \<and>
   process_file env0 sample_unknown = Inl KeyError"
proof -
  have T: "length sample_unknown div (2 + 9) = 2"
    by (simp add: sample_lengths)
  have h2: "2 + 9 + 2 \<le> length sample_unknown"
    by (simp add: sample_lengths)
  have h4: "\<forall>i < length sample_unknown div (2 + 9).
      chunk_atoms env0 sample_unknown 2 i = map Inr (unknown_atoms i)"
    unfolding T by (rule sample_unknown_chunks)
  have c1: "chunk_atoms env0 sample_unknown 2 1 = map Inr [(10, 6), (99, 3)]"
    using sample_unknown_chunks by (simp add: unknown_atoms_def)
  have a: "(99 :: int) \<notin> fst ` set (unknown_atoms 0)"
    by (simp add: unknown_atoms_def)
  have "(1::nat) < length sample_unknown div (2 + 9) \<and>
      (99, 3) \<in> set (unknown_atoms 1) \<and> fst (99 :: int, 3 :: real) \<notin> fst ` set (unknown_atoms 0)"
    unfolding T by (simp add: unknown_atoms_def)
  then have "\<exists>i < length sample_unknown div (2 + 9).
      \<exists>p \<in> set (unknown_atoms i). fst p \<notin> fst ` set (unknown_atoms 0)"
    by blast
  with unknown_identifier_raises [OF sample_header(5) h2 sample_header(6) h4]
  have "process_file env0 sample_unknown = Inl KeyError" by blast
  with sample_header(5,6) h2 c1 a show ?thesis by blast
qed

end
